theory Spec2Isabelle
  imports Complex_Main
begin

section \<open>The scene graph the editor works on\<close>

text \<open>
  The voxel editor (the script \<^verbatim>\<open>EDITOR_SCRIPT\<close> of \<^verbatim>\<open>src/services/gemini.ts\<close>, lines
  784 to 1511) mutates a three.js scene graph. Objects are JavaScript references; here an
  object is named by a natural number and the graph is a store from names to the fields
  the editor reads or writes. Numbers of the source are IEEE doubles; they are taken as
  reals, so \<^verbatim>\<open>NaN\<close>, infinities and rounding error of the arithmetic are outside the model.
\<close>

type_synonym vec3 = "real \<times> real \<times> real"
type_synonym quat = "real \<times> real \<times> real \<times> real"
type_synonym mat4 = "real list"

text \<open>The \<^verbatim>\<open>{ position, quaternion, scale }\<close> snapshots of the transform gizmo.\<close>

record tstate =
  ts_position :: vec3
  ts_quaternion :: quat
  ts_scale :: vec3

record object3d =
  parent :: "nat option"
  children :: "nat list"
  position :: vec3
  quaternion :: quat
  scale :: vec3
  locked :: bool
  isInstancedMesh :: bool
  isTransformControlsPlane :: bool
  geometry_type :: string
  geometry_width :: "real option"
  material_color :: "nat option"
  instanceMatrix :: "mat4 list"
  instanceColor :: "nat list option"
  name :: string

type_synonym graph = "nat \<Rightarrow> object3d"

text \<open>
  The objects the editor creates at start-up and compares hits against: \<^verbatim>\<open>window.scene\<close>,
  \<^verbatim>\<open>controlGizmo\<close>, \<^verbatim>\<open>selectionBox\<close> and \<^verbatim>\<open>ghostCursor\<close>.
\<close>

definition scene :: nat where "scene = 0"
definition controlGizmo :: nat where "controlGizmo = 1"
definition selectionBox :: nat where "selectionBox = 2"
definition ghostCursor :: nat where "ghostCursor = 3"

text \<open>
  \<^verbatim>\<open>Object3D.remove\<close> and \<^verbatim>\<open>Object3D.add\<close> are methods of the three.js library, which
  is not part of the repository; they are embedded after the library's implementation:
  \<^verbatim>\<open>remove\<close> looks the object up in \<^verbatim>\<open>this.children\<close> and, when found, clears its parent and
  splices it out; \<^verbatim>\<open>add\<close> refuses \<^verbatim>\<open>object === this\<close>, detaches the object from its current
  parent, sets the new parent and pushes the object at the end of \<^verbatim>\<open>this.children\<close>.
\<close>

definition remove_child :: "nat \<Rightarrow> nat \<Rightarrow> graph \<Rightarrow> graph" where
  "remove_child p v g =
     (if v \<in> set (children (g p))
      then (let g1 = g(v := (g v)\<lparr>parent := None\<rparr>)
            in g1(p := (g1 p)\<lparr>children := remove1 v (children (g1 p))\<rparr>))
      else g)"

definition removeFromParent :: "nat \<Rightarrow> graph \<Rightarrow> graph" where
  "removeFromParent v g = (case parent (g v) of None \<Rightarrow> g | Some q \<Rightarrow> remove_child q v g)"

definition add_child :: "nat \<Rightarrow> nat \<Rightarrow> graph \<Rightarrow> graph" where
  "add_child p v g =
     (if v = p then g
      else (let g1 = removeFromParent v g;
                g2 = g1(v := (g1 v)\<lparr>parent := Some p\<rparr>)
            in g2(p := (g2 p)\<lparr>children := children (g2 p) @ [v]\<rparr>)))"

section \<open>Editor state\<close>

datatype tool = Select | Move | Rotate | Scale | Build | Break | Pipette

text \<open>
  \<^verbatim>\<open>state.hoveredVoxel = { x, y, z, hitObj, hitId }\<close>; \<^verbatim>\<open>hitId\<close> is \<^verbatim>\<open>undefined\<close> unless the
  hit object is an instanced mesh.
\<close>

record hover =
  hx :: int
  hy :: int
  hz :: int
  hitObj :: nat
  hitId :: "nat option"

text \<open>
  The three commands. A \<^verbatim>\<open>TransformCommand\<close> is only ever constructed as
  \<^verbatim>\<open>new TransformCommand(controlGizmo.object, gizmoStart, newState)\<close> (line 1131): its
  \<^verbatim>\<open>oldState\<close> field is the one \<^verbatim>\<open>gizmoStart\<close> object itself, not a copy, so the command
  carries the object and the cloned \<^verbatim>\<open>newState\<close>, and its \<^verbatim>\<open>undo\<close> reads \<^verbatim>\<open>gizmoStart\<close>
  as it is when the undo runs.
\<close>

datatype command =
    AddVoxelCommand nat nat
  | RemoveVoxelCommand nat nat
  | TransformCommand nat tstate

datatype ctx_action = CtxDelete | CtxClone | CtxFocus

record ctx_item =
  ctx_label :: ctx_action
  ctx_enabled :: bool
  ctx_target :: nat

text \<open>
  The editor's mutable state: the graph, the closure variable \<^verbatim>\<open>gizmoStart\<close>, the fields of
  \<^verbatim>\<open>history\<close> (a \<^verbatim>\<open>CommandManager\<close>) and of \<^verbatim>\<open>state\<close>, the object the gizmo is attached to,
  the visibility and target of the selection box, the visibility of the ghost cursor, the
  orbit target of \<^verbatim>\<open>window.controls\<close> and the context menu. Position, colour and size of the
  ghost cursor are fields of its object in the graph. The toolbar and the tree view are
  written by \<^verbatim>\<open>updateUI\<close> and \<^verbatim>\<open>updateTree\<close> from this state and read by nothing; they are
  left out, and so is the \<^verbatim>\<open>enabled\<close> flag of \<^verbatim>\<open>window.controls\<close>.
\<close>

record editor =
  objs :: graph
  gizmoStart :: tstate
  history :: "command list"
  index :: int
  activeTool :: tool
  selectedObject :: "nat option"
  hoveredVoxel :: "hover option"
  brushColor :: nat
  brushSize :: int
  lastPipetteClick :: int
  gizmo_object :: "nat option"
  gizmo_mode :: tool
  selectionBox_visible :: bool
  selectionBox_object :: "nat option"
  ghost_visible :: bool
  controls_target :: vec3
  ctxMenu_display :: bool
  ctxMenu_items :: "ctx_item list"

section \<open>Selection\<close>

definition selectObject :: "nat option \<Rightarrow> editor \<Rightarrow> editor" where
  "selectObject obj e =
     (let e1 = e\<lparr>selectedObject := obj\<rparr>
      in case obj of
           Some ob \<Rightarrow>
             (let e2 = e1\<lparr>selectionBox_object := Some ob, selectionBox_visible := True\<rparr>
              in if locked (objs e2 ob) then e2\<lparr>gizmo_object := None\<rparr>
                 else if activeTool e2 \<in> {Move, Rotate, Scale} then e2\<lparr>gizmo_object := Some ob\<rparr>
                 else e2)
         | None \<Rightarrow> e1\<lparr>selectionBox_visible := False, gizmo_object := None\<rparr>)"

section \<open>Command history\<close>

definition set_transform :: "nat \<Rightarrow> tstate \<Rightarrow> graph \<Rightarrow> graph" where
  "set_transform ob t g =
     g(ob := (g ob)\<lparr>position := ts_position t, quaternion := ts_quaternion t,
                     scale := ts_scale t\<rparr>)"

fun cmd_execute :: "command \<Rightarrow> editor \<Rightarrow> editor" where
  "cmd_execute (AddVoxelCommand p v) e = e\<lparr>objs := add_child p v (objs e)\<rparr>"
| "cmd_execute (RemoveVoxelCommand p v) e =
     (let e1 = e\<lparr>objs := remove_child p v (objs e)\<rparr>
      in if selectedObject e1 = Some v then selectObject None e1 else e1)"
| "cmd_execute (TransformCommand ob newState) e =
     e\<lparr>objs := set_transform ob newState (objs e)\<rparr>"

fun cmd_undo :: "command \<Rightarrow> editor \<Rightarrow> editor" where
  "cmd_undo (AddVoxelCommand p v) e = e\<lparr>objs := remove_child p v (objs e)\<rparr>"
| "cmd_undo (RemoveVoxelCommand p v) e = e\<lparr>objs := add_child p v (objs e)\<rparr>"
| "cmd_undo (TransformCommand ob newState) e =
     e\<lparr>objs := set_transform ob (gizmoStart e) (objs e)\<rparr>"

text \<open>
  \<^verbatim>\<open>Array.prototype.slice(0, n)\<close>: a negative end counts from the end of the array.
\<close>

definition slice0 :: "'a list \<Rightarrow> int \<Rightarrow> 'a list" where
  "slice0 xs n = (if n < 0 then take (nat (int (length xs) + n)) xs else take (nat n) xs)"

definition execute :: "command \<Rightarrow> editor \<Rightarrow> editor" where
  "execute cmd e =
     (let e1 = cmd_execute cmd e;
          e2 = (if index e1 < int (length (history e1)) - 1
                then e1\<lparr>history := slice0 (history e1) (index e1 + 1)\<rparr> else e1)
      in e2\<lparr>history := history e2 @ [cmd], index := index e2 + 1\<rparr>)"

text \<open>
  \<^verbatim>\<open>undo\<close> and \<^verbatim>\<open>redo\<close> read \<^verbatim>\<open>this.history[this.index]\<close>; outside the array that is
  \<^verbatim>\<open>undefined\<close> and the method call on it throws a \<^verbatim>\<open>TypeError\<close>, which is the result
  \<open>None\<close>.
\<close>

definition undo :: "editor \<Rightarrow> editor option" where
  "undo e =
     (if index e \<ge> 0
      then (if nat (index e) < length (history e)
            then Some ((cmd_undo (history e ! nat (index e)) e)\<lparr>index := index e - 1\<rparr>)
            else None)
      else Some e)"

definition redo :: "editor \<Rightarrow> editor option" where
  "redo e =
     (if index e < int (length (history e)) - 1
      then (let e1 = e\<lparr>index := index e + 1\<rparr>
            in if 0 \<le> index e1
               then Some (cmd_execute (history e1 ! nat (index e1)) e1)
               else None)
      else Some e)"


section \<open>Tools, tree view and context menu\<close>

text \<open>
  \<^verbatim>\<open>controlGizmo.attach\<close>, \<^verbatim>\<open>detach\<close> and \<^verbatim>\<open>setMode\<close> set the gizmo's object and mode; the
  mode \<^verbatim>\<open>'translate'\<close> is written \<open>Move\<close>.
\<close>

definition setTool :: "tool \<Rightarrow> editor \<Rightarrow> editor" where
  "setTool toolId e =
     (let e1 = e\<lparr>activeTool := toolId\<rparr>;
          e2 = (if toolId = Move \<or> toolId = Rotate \<or> toolId = Scale
                then (case selectedObject e1 of
                        Some ob \<Rightarrow>
                          (if locked (objs e1 ob) then e1\<lparr>gizmo_object := None\<rparr>
                           else e1\<lparr>gizmo_object := Some ob, gizmo_mode := toolId\<rparr>)
                      | None \<Rightarrow> e1)
                else e1\<lparr>gizmo_object := None\<rparr>)
      in e2\<lparr>ghost_visible := (toolId = Build \<or> toolId = Break)\<rparr>)"

text \<open>
  The brush-size slider (\<^verbatim>\<open>sizeSlider.oninput\<close>); the slider runs from 1 to 5 in steps of 1,
  and \<^verbatim>\<open>updateGhostGeometry\<close> resizes the ghost cursor.
\<close>

definition updateGhostGeometry :: "editor \<Rightarrow> editor" where
  "updateGhostGeometry e =
     e\<lparr>objs := (objs e)(ghostCursor := (objs e ghostCursor)
          \<lparr>geometry_type := ''BoxGeometry'',
           geometry_width := Some (real_of_int (brushSize e))\<rparr>)\<rparr>"

definition size_input :: "int \<Rightarrow> editor \<Rightarrow> editor" where
  "size_input v e = updateGhostGeometry (e\<lparr>brushSize := v\<rparr>)"

text \<open>The lock button of a tree row (\<^verbatim>\<open>lockBtn.onclick\<close>).\<close>

definition lock_click :: "nat \<Rightarrow> editor \<Rightarrow> editor" where
  "lock_click ob e =
     (let e1 = e\<lparr>objs := (objs e)(ob := (objs e ob)\<lparr>locked := \<not> locked (objs e ob)\<rparr>)\<rparr>
      in if selectedObject e1 = Some ob \<and> locked (objs e1 ob)
         then e1\<lparr>gizmo_object := None\<rparr> else e1)"

text \<open>
  \<^verbatim>\<open>showCtxMenu\<close> selects the object and rebuilds the menu; an item whose \<^verbatim>\<open>disabled\<close> is set
  gets no \<^verbatim>\<open>onclick\<close>.
\<close>

definition showCtxMenu :: "nat \<Rightarrow> editor \<Rightarrow> editor" where
  "showCtxMenu ob e =
     (let e1 = selectObject (Some ob) e;
          isLocked = locked (objs e1 ob)
      in e1\<lparr>ctxMenu_display := True,
            ctxMenu_items :=
              [\<lparr>ctx_label = CtxDelete, ctx_enabled = \<not> isLocked, ctx_target = ob\<rparr>,
               \<lparr>ctx_label = CtxClone, ctx_enabled = \<not> isLocked, ctx_target = ob\<rparr>,
               \<lparr>ctx_label = CtxFocus, ctx_enabled = True, ctx_target = ob\<rparr>]\<rparr>)"

text \<open>\<^verbatim>\<open>obj.parent || window.scene\<close>.\<close>

definition parent_or_scene :: "graph \<Rightarrow> nat \<Rightarrow> nat" where
  "parent_or_scene g ob = (case parent (g ob) of Some p \<Rightarrow> p | None \<Rightarrow> scene)"

definition addScalar :: "real \<Rightarrow> vec3 \<Rightarrow> vec3" where
  "addScalar s v = (case v of (x, y, z) \<Rightarrow> (x + s, y + s, z + s))"

text \<open>
  The action of a menu item. \<^verbatim>\<open>obj.clone()\<close> is three.js's recursive copy into new objects;
  it is the parameter \<open>clone\<close>, which returns the copy and the graph that holds it.
  \<open>has_controls\<close> says whether \<^verbatim>\<open>window.controls\<close> exists.
\<close>

definition ctx_action_run ::
  "(graph \<Rightarrow> nat \<Rightarrow> nat \<times> graph) \<Rightarrow> bool \<Rightarrow> ctx_action \<Rightarrow> nat \<Rightarrow> editor \<Rightarrow> editor" where
  "ctx_action_run clone has_controls a ob e =
     (case a of
        CtxDelete \<Rightarrow> execute (RemoveVoxelCommand (parent_or_scene (objs e) ob) ob) e
      | CtxClone \<Rightarrow>
          (case clone (objs e) ob of (c, g1) \<Rightarrow>
             (let g2 = g1(c := (g1 c)\<lparr>position := addScalar 2 (position (g1 c))\<rparr>)
              in execute (AddVoxelCommand (parent_or_scene g2 ob) c) (e\<lparr>objs := g2\<rparr>)))
      | CtxFocus \<Rightarrow>
          (if has_controls then e\<lparr>controls_target := position (objs e ob)\<rparr> else e))"

text \<open>
  A click on the \<open>i\<close>-th item of the open menu: the item's \<^verbatim>\<open>onclick\<close>, if it has one, and
  then the window's \<^verbatim>\<open>click\<close> listener, which hides the menu.
\<close>

definition ctx_click ::
  "(graph \<Rightarrow> nat \<Rightarrow> nat \<times> graph) \<Rightarrow> bool \<Rightarrow> nat \<Rightarrow> editor \<Rightarrow> editor" where
  "ctx_click clone has_controls i e =
     (if ctxMenu_display e \<and> i < length (ctxMenu_items e)
      then (let it = ctxMenu_items e ! i;
                e1 = (if ctx_enabled it
                      then ctx_action_run clone has_controls (ctx_label it) (ctx_target it) e
                      else e)
            in e1\<lparr>ctxMenu_display := False\<rparr>)
      else e)"

text \<open>\<^verbatim>\<open>el.onmousedown\<close> of a tree row.\<close>

definition tree_row_mousedown :: "nat \<Rightarrow> nat \<Rightarrow> editor \<Rightarrow> editor" where
  "tree_row_mousedown button ob e =
     (let e1 = (if button = 0 then selectObject (Some ob) e else e)
      in if button = 2 then showCtxMenu ob e1 else e1)"

section \<open>Gizmo drags\<close>

definition transform_of :: "object3d \<Rightarrow> tstate" where
  "transform_of ob =
     \<lparr>ts_position = position ob, ts_quaternion = quaternion ob, ts_scale = scale ob\<rparr>"

text \<open>The \<^verbatim>\<open>dragging-changed\<close> listener of the gizmo, \<open>v\<close> being \<^verbatim>\<open>event.value\<close>.\<close>

definition dragging_changed :: "bool \<Rightarrow> editor \<Rightarrow> editor" where
  "dragging_changed v e =
     (case gizmo_object e of
        None \<Rightarrow> e
      | Some ob \<Rightarrow>
          (if v then e\<lparr>gizmoStart := transform_of (objs e ob)\<rparr>
           else execute (TransformCommand ob (transform_of (objs e ob))) e))"

section \<open>Keyboard\<close>

text \<open>
  \<^verbatim>\<open>String.prototype.toLowerCase\<close> on the key names, which are ASCII: the capital
  letters are mapped to the small ones and every other character is kept.
\<close>

definition lower_char :: "char \<Rightarrow> char" where
  "lower_char c =
     (case map_of (zip ''ABCDEFGHIJKLMNOPQRSTUVWXYZ'' ''abcdefghijklmnopqrstuvwxyz'') c of
        Some l \<Rightarrow> l
      | None \<Rightarrow> c)"

definition toLowerCase :: "string \<Rightarrow> string" where
  "toLowerCase s = map lower_char s"

definition toolDefs :: "(string \<times> tool) list" where
  "toolDefs = [(''v'', Select), (''g'', Move), (''r'', Rotate), (''s'', Scale),
               (''b'', Build), (''x'', Break), (''i'', Pipette)]"

record key_event =
  ev_repeat :: bool
  ev_ctrlKey :: bool
  ev_metaKey :: bool
  ev_shiftKey :: bool
  ev_key :: string

definition keydown :: "key_event \<Rightarrow> editor \<Rightarrow> editor option" where
  "keydown ev e =
     (if ev_repeat ev then Some e
      else if (ev_ctrlKey ev \<or> ev_metaKey ev) \<and> toLowerCase (ev_key ev) = ''z''
      then (if ev_shiftKey ev then redo e else undo e)
      else
        (let key = toLowerCase (ev_key ev);
             e1 = (case map_of toolDefs key of Some t \<Rightarrow> setTool t e | None \<Rightarrow> e)
         in if key = ''delete'' \<or> key = ''backspace''
            then (case selectedObject e1 of
                    Some ob \<Rightarrow>
                      (if \<not> locked (objs e1 ob)
                       then Some (execute (RemoveVoxelCommand (parent_or_scene (objs e1) ob) ob) e1)
                       else Some e1)
                  | None \<Rightarrow> Some e1)
            else Some e1))"


section \<open>Pointer events on the render surface\<close>

text \<open>
  An entry of \<^verbatim>\<open>raycaster.intersectObjects(window.scene.children, true)\<close>. The ray cast is
  three.js's; the handlers take its result, nearest hit first, as an argument. \<^verbatim>\<open>face\<close> is
  \<^verbatim>\<open>null\<close> for hits on lines, points and sprites.
\<close>

record hit =
  hit_point :: vec3
  hit_face_normal :: "vec3 option"
  hit_object :: nat
  hit_instanceId :: "nat option"

text \<open>\<^verbatim>\<open>Math.round\<close>: the nearest integer, halves towards \<open>+\<infinity>\<close>.\<close>

definition js_round :: "real \<Rightarrow> int" where
  "js_round x = \<lfloor>x + 1 / 2\<rfloor>"

text \<open>The predicate of \<^verbatim>\<open>intersects.find\<close> in the \<^verbatim>\<open>mousemove\<close> listener (line 1334).\<close>

definition hover_filter :: "graph \<Rightarrow> hit \<Rightarrow> bool" where
  "hover_filter g i =
     (hit_object i \<noteq> ghostCursor \<and> hit_object i \<noteq> controlGizmo \<and>
      hit_object i \<noteq> selectionBox \<and> \<not> isTransformControlsPlane (g (hit_object i)) \<and>
      \<not> locked (g (hit_object i)))"

text \<open>
  The candidate centre (lines 1349 to 1356): the hit point moved along the face normal by
  half the brush size, outwards for Build and inwards for Break and Pipette.
\<close>

definition target_pos :: "tool \<Rightarrow> int \<Rightarrow> vec3 \<Rightarrow> vec3 \<Rightarrow> vec3" where
  "target_pos t bsize point normal =
     (case point of (px, py, pz) \<Rightarrow>
      case normal of (nx, ny, nz) \<Rightarrow>
        (let k = real_of_int bsize * (1 / 2);
             shift = (nx * k, ny * k, nz * k)
         in case shift of (dx, dy, dz) \<Rightarrow>
              if t = Build then (px + dx, py + dy, pz + dz)
              else (px - dx, py - dy, pz - dz)))"

text \<open>The snap (lines 1359 to 1361): each axis rounded on its own.\<close>

definition snap :: "vec3 \<Rightarrow> int \<times> int \<times> int" where
  "snap targetPos = (case targetPos of (tx, ty, tz) \<Rightarrow> (js_round tx, js_round ty, js_round tz))"

definition snap_target :: "tool \<Rightarrow> int \<Rightarrow> vec3 \<Rightarrow> vec3 \<Rightarrow> int \<times> int \<times> int" where
  "snap_target t bsize point normal = snap (target_pos t bsize point normal)"

text \<open>
  The \<^verbatim>\<open>mousemove\<close> listener; it moves and colours the ghost cursor, an object of the
  graph. \<open>None\<close> is the \<^verbatim>\<open>TypeError\<close> of \<^verbatim>\<open>hit.face.normal\<close> on a hit without a face.
\<close>

definition mousemove :: "hit list \<Rightarrow> editor \<Rightarrow> editor option" where
  "mousemove intersects e =
     (if activeTool e = Build \<or> activeTool e = Break \<or> activeTool e = Pipette
      then (case find (hover_filter (objs e)) intersects of
              Some h \<Rightarrow>
                (case hit_face_normal h of
                   None \<Rightarrow> None
                 | Some normal \<Rightarrow>
                     (case snap_target (activeTool e) (brushSize e) (hit_point h) normal of
                        (sx, sy, sz) \<Rightarrow>
                          Some (e\<lparr>objs := (objs e)(ghostCursor := (objs e ghostCursor)
                                    \<lparr>position := (real_of_int sx, real_of_int sy, real_of_int sz),
                                     material_color :=
                                       Some (if activeTool e = Break then 0xff0000 else 0x00ff00)\<rparr>),
                                  ghost_visible := True,
                                  hoveredVoxel := Some \<lparr>hx = sx, hy = sy, hz = sz,
                                     hitObj = hit_object h, hitId = hit_instanceId h\<rparr>\<rparr>)))
            | None \<Rightarrow> Some (e\<lparr>ghost_visible := False, hoveredVoxel := None\<rparr>))
      else Some e)"

text \<open>
  The lock walk of the Select filter (lines 1397 to 1402): from the hit object up the
  parents until there is none or the scene is reached. On a graph whose parent pointers
  form a cycle that avoids the scene the loop does not end; not returning is \<open>None\<close>.
\<close>

partial_function (option) lock_walk :: "graph \<Rightarrow> nat option \<Rightarrow> bool option" where
  "lock_walk g check =
     (case check of
        None \<Rightarrow> Some True
      | Some c \<Rightarrow>
          (if c = scene then Some True
           else if locked (g c) then Some False
           else lock_walk g (parent (g c))))"

definition select_filter :: "graph \<Rightarrow> hit \<Rightarrow> bool option" where
  "select_filter g i =
     (let ob = hit_object i
      in if ob = controlGizmo \<or> ob = selectionBox \<or> isTransformControlsPlane (g ob)
         then Some False
         else lock_walk g (Some ob))"

text \<open>\<^verbatim>\<open>intersects.find\<close> with that predicate: the first hit it accepts, if any.\<close>

fun find_select :: "graph \<Rightarrow> hit list \<Rightarrow> hit option option" where
  "find_select g [] = Some None"
| "find_select g (i # rest) =
     (case select_filter g i of
        None \<Rightarrow> None
      | Some True \<Rightarrow> Some (Some i)
      | Some False \<Rightarrow> find_select g rest)"

text \<open>A newly constructed \<^verbatim>\<open>Object3D\<close>.\<close>

definition new_object :: object3d where
  "new_object =
     \<lparr>parent = None, children = [], position = (0, 0, 0), quaternion = (0, 0, 0, 1),
      scale = (1, 1, 1), locked = False, isInstancedMesh = False,
      isTransformControlsPlane = False, geometry_type = [], geometry_width = None,
      material_color = None, instanceMatrix = [], instanceColor = None, name = []\<rparr>"

fun digits :: "nat \<Rightarrow> string" where
  "digits n =
     (if n < 10 then [''0123456789'' ! n]
      else digits (n div 10) @ [''0123456789'' ! (n mod 10)])"

definition string_of_int :: "int \<Rightarrow> string" where
  "string_of_int i = (if i < 0 then CHR ''-'' # digits (nat (- i)) else digits (nat i))"

text \<open>
  The Build branch of the \<^verbatim>\<open>mousedown\<close> listener. \<open>userLayer\<close> is the result of
  \<^verbatim>\<open>window.scene.getObjectByName("UserLayer")\<close>; \<open>vid\<close> and \<open>gid\<close> name the mesh and the
  group that \<^verbatim>\<open>new\<close> creates.
\<close>

definition build_voxel :: "nat option \<Rightarrow> nat \<Rightarrow> nat \<Rightarrow> hover \<Rightarrow> editor \<Rightarrow> editor" where
  "build_voxel userLayer vid gid hv e =
     (let bsize = brushSize e;
          voxel = new_object\<lparr>geometry_type := ''BoxGeometry'',
                    geometry_width := Some (real_of_int bsize),
                    material_color := Some (brushColor e),
                    position := (real_of_int (hx hv), real_of_int (hy hv), real_of_int (hz hv)),
                    name := ''Voxel '' @ string_of_int bsize\<rparr>;
          g1 = (objs e)(vid := voxel)
      in case userLayer of
           Some ul \<Rightarrow> execute (AddVoxelCommand ul vid) (e\<lparr>objs := g1\<rparr>)
         | None \<Rightarrow>
             (let g2 = add_child scene gid (g1(gid := new_object\<lparr>name := ''UserLayer''\<rparr>))
              in execute (AddVoxelCommand gid vid) (e\<lparr>objs := g2\<rparr>)))"

text \<open>\<^verbatim>\<open>Matrix4.makeScale(0, 0, 0)\<close>, column by column.\<close>

definition makeScale0 :: mat4 where
  "makeScale0 = [0, 0, 0, 0, 0, 0, 0, 0, 0, 0, 0, 0, 0, 0, 0, 1]"

text \<open>
  The Break branch. \<^verbatim>\<open>setMatrixAt\<close> writes the sixteen entries of instance \<open>id\<close> into a typed
  array, where a write past the end is dropped.
\<close>

definition break_voxel :: "hover \<Rightarrow> editor \<Rightarrow> editor" where
  "break_voxel hv e =
     (let target = hitObj hv
      in if locked (objs e target) then e
         else if \<not> isInstancedMesh (objs e target)
         then execute (RemoveVoxelCommand (parent_or_scene (objs e) target) target) e
         else (case hitId hv of
                 Some i \<Rightarrow>
                   e\<lparr>objs := (objs e)(target := (objs e target)
                        \<lparr>instanceMatrix := (instanceMatrix (objs e target))[i := makeScale0]\<rparr>)\<rparr>
               | None \<Rightarrow> e))"

text \<open>
  The Pipette branch, in its two parts. The colour: \<^verbatim>\<open>getColorAt\<close> reads
  \<^verbatim>\<open>instanceColor.array\<close>, which throws when the mesh has no instance colours (\<open>None\<close>); a
  material without \<^verbatim>\<open>color\<close> leaves the brush colour alone. A read past the end of the
  colour array, or without an instance id, gives three.js a colour of undefined components;
  the model keeps the brush colour there.
\<close>

definition pipette_color :: "hover \<Rightarrow> editor \<Rightarrow> editor option" where
  "pipette_color hv e =
     (let target = objs e (hitObj hv)
      in if isInstancedMesh target
         then (case instanceColor target of
                 None \<Rightarrow> None
               | Some cs \<Rightarrow>
                   (case hitId hv of
                      Some i \<Rightarrow> Some (if i < length cs then e\<lparr>brushColor := cs ! i\<rparr> else e)
                    | None \<Rightarrow> Some e))
         else (case material_color target of
                 Some c \<Rightarrow> Some (e\<lparr>brushColor := c\<rparr>)
               | None \<Rightarrow> Some e))"

text \<open>
  The product of two Numbers is the IEEE 754 binary64 product: the exact product rounded to
  the nearest double, ties to the even significand. \<open>binade x\<close> is the exponent \<open>e\<close> with
  \<open>2 ^ e \<le> \<bar>x\<bar> < 2 ^ (e + 1)\<close>, kept between \<open>- 1022\<close> (below it the doubles are subnormal
  and as far apart as in that binade) and \<open>1023\<close>; the doubles of a binade are
  \<open>2 ^ (e - 52)\<close> apart. A rounded value of \<open>2 ^ 1024\<close> or more is \<^verbatim>\<open>Infinity\<close> or
  \<^verbatim>\<open>-Infinity\<close>, here \<open>None\<close>.
\<close>

function binade_up :: "int \<Rightarrow> real \<Rightarrow> int" where
  "binade_up e x = (if x < 2 \<or> 1023 \<le> e then e else binade_up (e + 1) (x / 2))"
  by pat_completeness auto
termination by (relation "measure (\<lambda>(e, x). nat (1023 - e))") auto

function binade_down :: "int \<Rightarrow> real \<Rightarrow> int" where
  "binade_down e x = (if 1 \<le> x \<or> e \<le> - 1022 then e else binade_down (e - 1) (2 * x))"
  by pat_completeness auto
termination by (relation "measure (\<lambda>(e, x). nat (e + 1022))") auto

declare binade_up.simps [simp del] binade_down.simps [simp del]

definition binade :: "real \<Rightarrow> int" where
  "binade x = (if 1 \<le> \<bar>x\<bar> then binade_up 0 \<bar>x\<bar> else binade_down 0 \<bar>x\<bar>)"

definition scale2 :: "int \<Rightarrow> real \<Rightarrow> real" where
  "scale2 e x = (if 0 \<le> e then x * 2 ^ nat e else x / 2 ^ nat (- e))"

definition round_half_even :: "real \<Rightarrow> int" where
  "round_half_even x =
     (let f = \<lfloor>x\<rfloor>
      in if x - of_int f < 1 / 2 then f
         else if 1 / 2 < x - of_int f then f + 1
         else if even f then f else f + 1)"

definition to_double :: "real \<Rightarrow> real option" where
  "to_double x =
     (let q = binade x - 52;
          r = scale2 q (of_int (round_half_even (scale2 (- q) x)))
      in if \<bar>r\<bar> < 2 ^ 1024 then Some r else None)"

definition double_mul :: "real \<Rightarrow> real \<Rightarrow> real option" where
  "double_mul x y = to_double (x * y)"

text \<open>
  The size (lines 1480 to 1491): \<^verbatim>\<open>target.scale.x * (target.geometry.parameters.width || 1)\<close>,
  rounded, and taken over only when it lies between 1 and 5. \<^verbatim>\<open>Math.round\<close> of an infinite
  product is that infinity, which is not between 1 and 5.
\<close>

definition cube_side :: "object3d \<Rightarrow> real option" where
  "cube_side target =
     double_mul (fst (scale target))
       (case geometry_width target of Some w \<Rightarrow> if w = 0 then 1 else w | None \<Rightarrow> 1)"

definition pipette_size :: "bool \<Rightarrow> hover \<Rightarrow> editor \<Rightarrow> editor" where
  "pipette_size isDbl hv e =
     (let target = objs e (hitObj hv)
      in if isDbl \<and> \<not> isInstancedMesh target \<and> geometry_type target = ''BoxGeometry''
         then (case cube_side target of
                 None \<Rightarrow> e
               | Some s \<Rightarrow>
                   (let rounded = js_round s
                    in if rounded \<ge> 1 \<and> rounded \<le> 5
                       then updateGhostGeometry (e\<lparr>brushSize := rounded\<rparr>)
                       else e))
         else e)"

text \<open>
  The \<^verbatim>\<open>mousedown\<close> listener: \<open>now\<close> is \<^verbatim>\<open>Date.now()\<close>, \<open>intersects\<close> the ray cast of the
  Select branch. \<open>None\<close> is a lock walk that does not end or the \<^verbatim>\<open>TypeError\<close> of the
  colour read.
\<close>

definition mousedown ::
  "nat \<Rightarrow> int \<Rightarrow> hit list \<Rightarrow> nat option \<Rightarrow> nat \<Rightarrow> nat \<Rightarrow> editor \<Rightarrow> editor option" where
  "mousedown button now intersects userLayer vid gid e =
     (if button \<noteq> 0 then Some e
      else
        (let isDbl = (now - lastPipetteClick e < 300);
             e0 = e\<lparr>lastPipetteClick := now\<rparr>
         in if activeTool e0 = Select
            then (case find_select (objs e0) intersects of
                    None \<Rightarrow> None
                  | Some (Some h) \<Rightarrow> Some (selectObject (Some (hit_object h)) e0)
                  | Some None \<Rightarrow> Some (selectObject None e0))
            else (case hoveredVoxel e0 of
                    None \<Rightarrow> Some e0
                  | Some hv \<Rightarrow>
                      (if activeTool e0 = Build then Some (build_voxel userLayer vid gid hv e0)
                       else if activeTool e0 = Break then Some (break_voxel hv e0)
                       else if activeTool e0 = Pipette
                       then (case pipette_color hv e0 of
                               None \<Rightarrow> None
                             | Some e1 \<Rightarrow> Some (pipette_size isDbl hv e1))
                       else Some e0))))"


section \<open>The editor at start-up and a small scene\<close>

text \<open>
  The state the script builds before the first event: an empty history with index \<open>-1\<close>,
  the \<^verbatim>\<open>state\<close> literal of line 895, a zero \<^verbatim>\<open>gizmoStart\<close>, and the gizmo, the selection box
  and the ghost cursor added to the scene it was given.
\<close>

definition initial_editor :: "graph \<Rightarrow> editor" where
  "initial_editor g =
     \<lparr>objs =
        add_child scene ghostCursor
          (add_child scene selectionBox
            (add_child scene controlGizmo
              (g(controlGizmo := new_object, selectionBox := new_object,
                 ghostCursor := new_object\<lparr>geometry_type := ''BoxGeometry'',
                    geometry_width := Some 1, material_color := Some 0x00ff00\<rparr>)))),
      gizmoStart = \<lparr>ts_position = (0, 0, 0), ts_quaternion = (0, 0, 0, 1), ts_scale = (0, 0, 0)\<rparr>,
      history = [], index = - 1, activeTool = Select, selectedObject = None,
      hoveredVoxel = None, brushColor = 0xffffff, brushSize = 1, lastPipetteClick = 0,
      gizmo_object = None, gizmo_mode = Move, selectionBox_visible = False,
      selectionBox_object = None, ghost_visible = False, controls_target = (0, 0, 0),
      ctxMenu_display = False, ctxMenu_items = []\<rparr>"

text \<open>
  A scene for the examples: under the scene a cube of side 4 centred at (2, -1.6, 3), so
  that its top face is at height 0.4 (object 10); a locked group at (20, 0, 0) (11) that
  holds an unlocked cube of side 7 (12); and an instanced mesh at (0, 0, 20) of two unit
  cubes, the second moved by (2, 0, 0) (13). Nothing covers the origin, where the ghost
  cursor starts.
\<close>

definition identity4 :: mat4 where
  "identity4 = [1, 0, 0, 0, 0, 1, 0, 0, 0, 0, 1, 0, 0, 0, 0, 1]"

definition translate_x2 :: mat4 where
  "translate_x2 = [1, 0, 0, 0, 0, 1, 0, 0, 0, 0, 1, 0, 2, 0, 0, 1]"

definition box_mesh :: "real \<Rightarrow> nat \<Rightarrow> vec3 \<Rightarrow> object3d" where
  "box_mesh w c pos = new_object\<lparr>geometry_type := ''BoxGeometry'', geometry_width := Some w,
                                  material_color := Some c, position := pos\<rparr>"

definition demo_graph :: graph where
  "demo_graph =
     add_child scene 13
       (add_child 11 12
         (add_child scene 11
           (add_child scene 10
             ((\<lambda>_. new_object)
                (10 := box_mesh 4 0xff0000 (2, - 8 / 5, 3),
                 11 := new_object\<lparr>locked := True, position := (20, 0, 0)\<rparr>,
                 12 := box_mesh 7 0x0000ff (0, 0, 0),
                 13 := (box_mesh 1 0xffffff (0, 0, 20))\<lparr>isInstancedMesh := True,
                          instanceMatrix := [identity4, translate_x2],
                          instanceColor := Some [0x111111, 0x222222]\<rparr>)))))"

definition demo_editor :: editor where
  "demo_editor = initial_editor demo_graph"

text \<open>A ray hit on a top face, where the normal is (0, 1, 0).\<close>

definition hit_at :: "vec3 \<Rightarrow> nat \<Rightarrow> nat option \<Rightarrow> hit" where
  "hit_at p ob i = \<lparr>hit_point = p, hit_face_normal = Some (0, 1, 0),
                    hit_object = ob, hit_instanceId = i\<rparr>"

definition key_press :: "bool \<Rightarrow> string \<Rightarrow> key_event" where
  "key_press ctrl k = \<lparr>ev_repeat = False, ev_ctrlKey = ctrl, ev_metaKey = False,
                       ev_shiftKey = False, ev_key = k\<rparr>"

text \<open>What \<^verbatim>\<open>clone()\<close> gives on an object without children, the copy being object 30.\<close>

definition leaf_clone :: "graph \<Rightarrow> nat \<Rightarrow> nat \<times> graph" where
  "leaf_clone g ob = (30, g(30 := (g ob)\<lparr>parent := None, children := []\<rparr>))"

definition parent_of :: "nat \<Rightarrow> editor \<Rightarrow> nat option" where
  "parent_of v e = parent (objs e v)"

definition children_of :: "nat \<Rightarrow> editor \<Rightarrow> nat list" where
  "children_of v e = children (objs e v)"


definition position_of :: "nat \<Rightarrow> editor \<Rightarrow> vec3" where
  "position_of v e = position (objs e v)"

definition select_verdict :: "hit \<Rightarrow> editor \<Rightarrow> bool option" where
  "select_verdict h e = select_filter (objs e) h"

definition hover_verdict :: "hit \<Rightarrow> editor \<Rightarrow> bool" where
  "hover_verdict h e = hover_filter (objs e) h"

text \<open>
  The Build tool brought over the top face of the cube of side 4, which puts the ghost
  cursor on that face, centred at (2, 1, 3); then the Select tool, which hides the ghost
  cursor where it is; then a pointer-down on the same spot, where the ray meets the top of
  the ghost cursor before the top of the cube.
\<close>

definition ghost_left_behind :: "editor option" where
  "ghost_left_behind =
     map_option (setTool Select)
       (mousemove [hit_at (21 / 10, 4 / 10, 29 / 10) 10 None] (setTool Build demo_editor))"

definition ghost_clicked :: "editor option" where
  "ghost_clicked =
     Option.bind ghost_left_behind
       (mousedown 0 1000
          [hit_at (21 / 10, 3 / 2, 29 / 10) ghostCursor None,
           hit_at (21 / 10, 4 / 10, 29 / 10) 10 None] None 20 21)"

text \<open>
  The cube of side 4 cloned from the context menu of its tree row (secondary click on the
  row, click on the second item), the tree row of the clone clicked, then Ctrl+Z.
\<close>

definition clone_made :: editor where
  "clone_made = ctx_click leaf_clone True 1 (tree_row_mousedown 2 10 demo_editor)"

definition clone_selected :: editor where
  "clone_selected = tree_row_mousedown 0 30 clone_made"

definition clone_undone :: "editor option" where
  "clone_undone = keydown (key_press True ''z'') clone_selected"

section \<open>Vocabulary of the properties\<close>

text \<open>
  three.js keeps \<^verbatim>\<open>children\<close> and \<^verbatim>\<open>parent\<close> consistent: an object is in the child list of
  its parent and of nothing else, once.
\<close>

definition wf_graph :: "graph \<Rightarrow> bool" where
  "wf_graph g =
     ((\<forall>p v. v \<in> set (children (g p)) \<longleftrightarrow> parent (g v) = Some p) \<and>
      (\<forall>p. distinct (children (g p))))"

text \<open>The cursor of the history lies between \<open>-1\<close> and the last position of the log.\<close>

definition cursor_ok :: "editor \<Rightarrow> bool" where
  "cursor_ok e = (- 1 \<le> index e \<and> index e \<le> int (length (history e)) - 1)"

text \<open>Sequences of calls on the history.\<close>

datatype hop = Execute command | Undo | Redo

fun run_hops :: "hop list \<Rightarrow> editor \<Rightarrow> editor option" where
  "run_hops [] e = Some e"
| "run_hops (Execute c # hs) e = run_hops hs (execute c e)"
| "run_hops (Undo # hs) e = Option.bind (undo e) (run_hops hs)"
| "run_hops (Redo # hs) e = Option.bind (redo e) (run_hops hs)"

fun executes :: "command list \<Rightarrow> editor \<Rightarrow> editor" where
  "executes [] e = e"
| "executes (c # cs) e = executes cs (execute c e)"

text \<open>
  Commands executed one after the other, where a command that comes from a gizmo drag is
  preceded by the drag start overwriting \<^verbatim>\<open>gizmoStart\<close> with a snapshot (line 1119): a step
  is the snapshot, if there is a drag, and the command.
\<close>

fun run_steps :: "(tstate option \<times> command) list \<Rightarrow> editor \<Rightarrow> editor" where
  "run_steps [] e = e"
| "run_steps ((snapshot, c) # rest) e =
     run_steps rest
       (execute c (case snapshot of None \<Rightarrow> e | Some t \<Rightarrow> e\<lparr>gizmoStart := t\<rparr>))"

fun undoN :: "nat \<Rightarrow> editor \<Rightarrow> editor option" where
  "undoN 0 e = Some e"
| "undoN (Suc n) e = Option.bind (undo e) (undoN n)"

fun redoN :: "nat \<Rightarrow> editor \<Rightarrow> editor option" where
  "redoN 0 e = Some e"
| "redoN (Suc n) e = Option.bind (redo e) (redoN n)"

text \<open>
  What the commands do to the graph alone, \<open>gs\<close> being the \<^verbatim>\<open>gizmoStart\<close> that an undone
  \<^verbatim>\<open>TransformCommand\<close> reads.
\<close>

fun g_exec :: "command \<Rightarrow> graph \<Rightarrow> graph" where
  "g_exec (AddVoxelCommand p v) g = add_child p v g"
| "g_exec (RemoveVoxelCommand p v) g = remove_child p v g"
| "g_exec (TransformCommand ob ns) g = set_transform ob ns g"

fun g_undo :: "tstate \<Rightarrow> command \<Rightarrow> graph \<Rightarrow> graph" where
  "g_undo gs (AddVoxelCommand p v) g = remove_child p v g"
| "g_undo gs (RemoveVoxelCommand p v) g = add_child p v g"
| "g_undo gs (TransformCommand ob ns) g = set_transform ob gs g"

text \<open>
  The commands as the editor constructs them. The added object is new, so it is not the
  parent it is added to; a removed object comes with \<^verbatim>\<open>obj.parent || window.scene\<close>, so at
  the time of the call it is a child of the command's parent or has no parent at all.
\<close>

fun cmd_ok :: "command \<Rightarrow> graph \<Rightarrow> bool" where
  "cmd_ok (AddVoxelCommand p v) g = (v \<noteq> p)"
| "cmd_ok (RemoveVoxelCommand p v) g =
     (v \<noteq> p \<and> (parent (g v) = Some p \<or> parent (g v) = None))"
| "cmd_ok (TransformCommand ob ns) g = True"

fun cmds_ok :: "command list \<Rightarrow> graph \<Rightarrow> bool" where
  "cmds_ok [] g = True"
| "cmds_ok (c # cs) g = (cmd_ok c g \<and> cmds_ok cs (g_exec c g))"

text \<open>
  The object whose place in the hierarchy, or whose transform, a command sets; two graphs
  agree off two sets of objects when they differ at most in the parents and child-list
  places of the first set and in the transforms of the second.
\<close>

fun h_target :: "command \<Rightarrow> nat option" where
  "h_target (AddVoxelCommand p v) = Some v"
| "h_target (RemoveVoxelCommand p v) = Some v"
| "h_target (TransformCommand ob ns) = None"

fun t_target :: "command \<Rightarrow> nat option" where
  "t_target (AddVoxelCommand p v) = None"
| "t_target (RemoveVoxelCommand p v) = None"
| "t_target (TransformCommand ob ns) = Some ob"

definition h_targets :: "command list \<Rightarrow> nat set" where
  "h_targets cs = {v. \<exists>c \<in> set cs. h_target c = Some v}"

definition t_targets :: "command list \<Rightarrow> nat set" where
  "t_targets cs = {v. \<exists>c \<in> set cs. t_target c = Some v}"

definition other_fields :: "object3d \<Rightarrow> object3d" where
  "other_fields ob = ob\<lparr>parent := None, children := [], position := (0, 0, 0),
                        quaternion := (0, 0, 0, 1), scale := (0, 0, 0)\<rparr>"

definition agree_off :: "nat set \<Rightarrow> nat set \<Rightarrow> graph \<Rightarrow> graph \<Rightarrow> bool" where
  "agree_off KH KT g h =
     ((\<forall>w. other_fields (g w) = other_fields (h w)) \<and>
      (\<forall>w. w \<notin> KH \<longrightarrow> parent (g w) = parent (h w)) \<and>
      (\<forall>w. w \<notin> KT \<longrightarrow> position (g w) = position (h w) \<and>
                          quaternion (g w) = quaternion (h w) \<and> scale (g w) = scale (h w)) \<and>
      (\<forall>q. filter (\<lambda>x. x \<notin> KH) (children (g q)) = filter (\<lambda>x. x \<notin> KH) (children (h q))))"

definition pend_ok :: "command list \<Rightarrow> graph \<Rightarrow> bool" where
  "pend_ok cs g =
     (\<forall>v p. find (\<lambda>c. h_target c = Some v) cs = Some (RemoveVoxelCommand p v) \<longrightarrow>
            parent (g v) = Some p \<or> parent (g v) = None)"

definition at_end :: "editor \<Rightarrow> command list \<Rightarrow> command list \<Rightarrow> bool" where
  "at_end e H ds = (history e = H @ ds \<and> index e = int (length H) + int (length ds) - 1)"

text \<open>
  The objects from \<open>ob\<close> up its parents, \<open>ob\<close> included and the scene excluded: the chain
  that the lock walk of the Select filter visits when nothing on it is locked.
\<close>

inductive on_walk :: "graph \<Rightarrow> nat \<Rightarrow> nat \<Rightarrow> bool" for g :: graph and ob :: nat where
  start: "ob \<noteq> scene \<Longrightarrow> on_walk g ob ob"
| step: "on_walk g ob a \<Longrightarrow> parent (g a) = Some b \<Longrightarrow> b \<noteq> scene \<Longrightarrow> on_walk g ob b"



section \<open>Hierarchy operations on a consistent graph\<close>

lemma filter_id_notin: "v \<notin> set xs \<Longrightarrow> filter (\<lambda>x. x \<noteq> v) xs = xs"
  by (induction xs) auto

lemma distinct_remove1_filter: "distinct xs \<Longrightarrow> remove1 v xs = filter (\<lambda>x. x \<noteq> v) xs"
  by (induction xs) (auto simp: filter_id_notin)

lemma wf_notin: "wf_graph g \<Longrightarrow> parent (g v) \<noteq> Some q \<Longrightarrow> v \<notin> set (children (g q))"
  by (simp add: wf_graph_def)

lemma wf_filter_id:
  "wf_graph g \<Longrightarrow> parent (g v) \<noteq> Some q \<Longrightarrow> filter (\<lambda>x. x \<noteq> v) (children (g q)) = children (g q)"
  by (simp add: wf_notin filter_id_notin)

lemma remove_child_parent:
  "wf_graph g \<Longrightarrow> parent (remove_child p v g w) =
     (if w = v \<and> parent (g v) = Some p then None else parent (g w))"
  by (auto simp: remove_child_def wf_graph_def Let_def)

lemma remove_child_children:
  "wf_graph g \<Longrightarrow> children (remove_child p v g q) =
     (if parent (g v) = Some p then filter (\<lambda>x. x \<noteq> v) (children (g q)) else children (g q))"
proof (cases "parent (g v) = Some p")
  case True
  assume wf: "wf_graph g"
  show ?thesis
  proof (cases "q = p")
    case True
    then show ?thesis using wf \<open>parent (g v) = Some p\<close>
      by (auto simp: remove_child_def wf_graph_def Let_def distinct_remove1_filter)
  next
    case False
    then have "parent (g v) \<noteq> Some q" using True by simp
    from wf_filter_id [OF wf this] show ?thesis using wf True False
      by (auto simp: remove_child_def wf_graph_def Let_def)
  qed
next
  case False
  assume wf: "wf_graph g"
  then show ?thesis using False by (auto simp: remove_child_def wf_graph_def)
qed

lemma wf_remove_child: "wf_graph g \<Longrightarrow> wf_graph (remove_child p v g)"
  unfolding wf_graph_def [of "remove_child p v g"]
  by (auto simp: remove_child_parent remove_child_children) (auto simp: wf_graph_def)

lemma removeFromParent_parent:
  "wf_graph g \<Longrightarrow> parent (removeFromParent v g w) = (if w = v then None else parent (g w))"
  by (auto simp: removeFromParent_def remove_child_parent split: option.splits)

lemma removeFromParent_children:
  "wf_graph g \<Longrightarrow> children (removeFromParent v g q) = filter (\<lambda>x. x \<noteq> v) (children (g q))"
  by (auto simp: removeFromParent_def remove_child_children wf_filter_id split: option.splits)

lemma add_child_parent:
  "wf_graph g \<Longrightarrow> v \<noteq> p \<Longrightarrow>
   parent (add_child p v g w) = (if w = v then Some p else parent (g w))"
  by (auto simp: add_child_def Let_def removeFromParent_parent)

lemma add_child_children:
  "wf_graph g \<Longrightarrow> v \<noteq> p \<Longrightarrow>
   children (add_child p v g q) =
     filter (\<lambda>x. x \<noteq> v) (children (g q)) @ (if q = p then [v] else [])"
  by (auto simp: add_child_def Let_def removeFromParent_children)

lemma wf_add_child: "wf_graph g \<Longrightarrow> wf_graph (add_child p v g)"
proof (cases "v = p")
  case True
  then show "wf_graph g \<Longrightarrow> ?thesis" by (simp add: add_child_def)
next
  case False
  assume wf: "wf_graph g"
  show ?thesis
    unfolding wf_graph_def [of "add_child p v g"]
    using wf False
    by (auto simp: add_child_parent add_child_children) (auto simp: wf_graph_def)
qed

section \<open>Graphs that agree off the objects of pending commands\<close>

lemma agree_off_eq: "agree_off {} {} g h \<Longrightarrow> g = h"
proof
  fix w assume a: "agree_off {} {} g h"
  then have "other_fields (g w) = other_fields (h w)" "parent (g w) = parent (h w)"
    "position (g w) = position (h w)" "quaternion (g w) = quaternion (h w)"
    "scale (g w) = scale (h w)" "children (g w) = children (h w)"
    by (simp_all add: agree_off_def)
  then show "g w = h w"
    by (cases "g w"; cases "h w") (simp add: other_fields_def)
qed

lemma agree_off_refl: "agree_off KH KT g g"
  by (simp add: agree_off_def)

lemma agree_off_trans: "agree_off KH KT g h \<Longrightarrow> agree_off KH KT h k \<Longrightarrow> agree_off KH KT g k"
  by (simp add: agree_off_def)

lemma filter_mono_eq:
  assumes "filter (\<lambda>x. x \<notin> K) xs = filter (\<lambda>x. x \<notin> K) ys" and "K \<subseteq> K'"
  shows "filter (\<lambda>x. x \<notin> K') xs = filter (\<lambda>x. x \<notin> K') ys"
proof -
  have "\<And>zs. filter (\<lambda>x. x \<notin> K') zs = filter (\<lambda>x. x \<notin> K') (filter (\<lambda>x. x \<notin> K) zs)"
    using assms(2) by (auto intro: filter_cong)
  then show ?thesis using assms(1) by metis
qed

lemma agree_off_mono:
  "agree_off KH KT g h \<Longrightarrow> KH \<subseteq> KH' \<Longrightarrow> KT \<subseteq> KT' \<Longrightarrow> agree_off KH' KT' g h"
  unfolding agree_off_def by (auto intro: filter_mono_eq)

lemma other_fields_upd [simp]:
  "other_fields (ob\<lparr>parent := a\<rparr>) = other_fields ob"
  "other_fields (ob\<lparr>children := b\<rparr>) = other_fields ob"
  "other_fields (ob\<lparr>position := c\<rparr>) = other_fields ob"
  "other_fields (ob\<lparr>quaternion := d\<rparr>) = other_fields ob"
  "other_fields (ob\<lparr>scale := f\<rparr>) = other_fields ob"
  by (simp_all add: other_fields_def)

lemma remove_child_other:
  "other_fields (remove_child p v g w) = other_fields (g w)"
  "position (remove_child p v g w) = position (g w)"
  "quaternion (remove_child p v g w) = quaternion (g w)"
  "scale (remove_child p v g w) = scale (g w)"
  by (auto simp: remove_child_def Let_def)

lemma removeFromParent_other:
  "other_fields (removeFromParent v g w) = other_fields (g w)"
  "position (removeFromParent v g w) = position (g w)"
  "quaternion (removeFromParent v g w) = quaternion (g w)"
  "scale (removeFromParent v g w) = scale (g w)"
  by (auto simp: removeFromParent_def remove_child_other split: option.splits)

lemma add_child_other:
  "other_fields (add_child p v g w) = other_fields (g w)"
  "position (add_child p v g w) = position (g w)"
  "quaternion (add_child p v g w) = quaternion (g w)"
  "scale (add_child p v g w) = scale (g w)"
  by (auto simp: add_child_def Let_def removeFromParent_other)

lemma set_transform_fields:
  "other_fields (set_transform ob t g w) = other_fields (g w)"
  "parent (set_transform ob t g w) = parent (g w)"
  "children (set_transform ob t g w) = children (g w)"
  "position (set_transform ob t g w) = (if w = ob then ts_position t else position (g w))"
  "quaternion (set_transform ob t g w) = (if w = ob then ts_quaternion t else quaternion (g w))"
  "scale (set_transform ob t g w) = (if w = ob then ts_scale t else scale (g w))"
  by (auto simp: set_transform_def)

lemma wf_set_transform: "wf_graph g \<Longrightarrow> wf_graph (set_transform ob t g)"
  by (simp add: wf_graph_def set_transform_fields)

lemma filter_filter_neq:
  "filter (\<lambda>x. x \<notin> insert v K) (filter (\<lambda>x. x \<noteq> v) xs) = filter (\<lambda>x. x \<notin> insert v K) xs"
  by (induction xs) auto

lemma frame_remove:
  assumes "wf_graph g" shows "agree_off {v} {} (remove_child p v g) g"
  using assms unfolding agree_off_def
  by (auto simp: remove_child_other remove_child_parent remove_child_children
        filter_filter_neq [of v "{}", simplified])

lemma frame_add:
  assumes "wf_graph g" shows "agree_off {v} {} (add_child p v g) g"
proof (cases "v = p")
  case True then show ?thesis by (simp add: add_child_def agree_off_refl)
next
  case False
  then show ?thesis using assms unfolding agree_off_def
    by (auto simp: add_child_other add_child_parent add_child_children
        filter_filter_neq [of v "{}", simplified])
qed

lemma frame_transform: "agree_off {} {ob} (set_transform ob t g) g"
  unfolding agree_off_def by (auto simp: set_transform_fields)

lemma wf_g_exec: "wf_graph g \<Longrightarrow> wf_graph (g_exec c g)"
  by (cases c) (simp_all add: wf_add_child wf_remove_child wf_set_transform)

lemma wf_g_undo: "wf_graph g \<Longrightarrow> wf_graph (g_undo gs c g)"
  by (cases c) (simp_all add: wf_add_child wf_remove_child wf_set_transform)

lemma targets_Cons:
  "h_targets (c # cs) = (case h_target c of Some v \<Rightarrow> {v} | None \<Rightarrow> {}) \<union> h_targets cs"
  "t_targets (c # cs) = (case t_target c of Some v \<Rightarrow> {v} | None \<Rightarrow> {}) \<union> t_targets cs"
  by (auto simp: h_targets_def t_targets_def split: option.splits)

lemma frame_exec:
  "wf_graph g \<Longrightarrow> agree_off (h_targets [c]) (t_targets [c]) (g_exec c g) g"
  by (cases c) (simp_all add: h_targets_def t_targets_def frame_add frame_remove frame_transform)

lemma frame_undo:
  "wf_graph g \<Longrightarrow> agree_off (h_targets [c]) (t_targets [c]) (g_undo gs c g) g"
  by (cases c) (simp_all add: h_targets_def t_targets_def frame_add frame_remove frame_transform)

lemma filter_notin_neq:
  "filter (\<lambda>x. x \<notin> K) (filter (\<lambda>x. x \<noteq> v) xs) = filter (\<lambda>x. x \<notin> insert v K) xs"
  by (induction xs) auto

lemma settle_add:
  assumes "wf_graph g" "wf_graph h" "v \<noteq> p" "agree_off (insert v KH) KT g h"
  shows "agree_off KH KT (add_child p v g) (add_child p v h)"
  using assms unfolding agree_off_def
  by (auto simp: add_child_other add_child_parent add_child_children filter_notin_neq)

lemma remove_child_children_ok:
  assumes "wf_graph g" "parent (g v) = Some p \<or> parent (g v) = None"
  shows "children (remove_child p v g q) = filter (\<lambda>x. x \<noteq> v) (children (g q))"
  using assms by (auto simp: remove_child_children wf_filter_id)

lemma remove_child_parent_ok:
  assumes "wf_graph g" "parent (g v) = Some p \<or> parent (g v) = None"
  shows "parent (remove_child p v g w) = (if w = v then None else parent (g w))"
  using assms by (auto simp: remove_child_parent)

lemma settle_remove:
  assumes "wf_graph g" "wf_graph h" "agree_off (insert v KH) KT g h"
    "parent (g v) = Some p \<or> parent (g v) = None"
    "parent (h v) = Some p \<or> parent (h v) = None"
  shows "agree_off KH KT (remove_child p v g) (remove_child p v h)"
  using assms(3) unfolding agree_off_def
  by (auto simp: remove_child_other remove_child_parent_ok [OF assms(1,4)]
      remove_child_parent_ok [OF assms(2,5)] remove_child_children_ok [OF assms(1,4)]
      remove_child_children_ok [OF assms(2,5)] filter_notin_neq)

lemma settle_transform:
  assumes "agree_off KH (insert ob KT) g h"
  shows "agree_off KH KT (set_transform ob t g) (set_transform ob t h)"
  using assms unfolding agree_off_def by (auto simp: set_transform_fields)

lemma exec_parent_other:
  assumes "wf_graph g" "h_target c \<noteq> Some u"
  shows "parent (g_exec c g u) = parent (g u)"
  using frame_exec [OF assms(1), of c] assms(2)
  by (cases c) (auto simp: agree_off_def h_targets_def)

lemma undo_parent_other:
  assumes "wf_graph g" "h_target c \<noteq> Some u"
  shows "parent (g_undo gs c g u) = parent (g u)"
  using frame_undo [OF assms(1), of c] assms(2)
  by (cases c) (auto simp: agree_off_def h_targets_def)

lemma cmds_ok_pend_ok: "wf_graph g \<Longrightarrow> cmds_ok cs g \<Longrightarrow> pend_ok cs g"
proof (induction cs arbitrary: g)
  case Nil
  then show ?case by (simp add: pend_ok_def)
next
  case (Cons c cs)
  have wf1: "wf_graph (g_exec c g)" using Cons.prems(1) by (rule wf_g_exec)
  have ih: "pend_ok cs (g_exec c g)" using Cons.IH [OF wf1] Cons.prems(2) by simp
  show ?case unfolding pend_ok_def
  proof (intro allI impI)
    fix v p
    assume f: "find (\<lambda>c. h_target c = Some v) (c # cs) = Some (RemoveVoxelCommand p v)"
    show "parent (g v) = Some p \<or> parent (g v) = None"
    proof (cases "h_target c = Some v")
      case True
      then have "c = RemoveVoxelCommand p v" using f by simp
      then show ?thesis using Cons.prems(2) by simp
    next
      case False
      then have "find (\<lambda>c. h_target c = Some v) cs = Some (RemoveVoxelCommand p v)"
        using f by simp
      then have "parent (g_exec c g v) = Some p \<or> parent (g_exec c g v) = None"
        using ih by (simp add: pend_ok_def)
      then show ?thesis using exec_parent_other [OF Cons.prems(1) False] by simp
    qed
  qed
qed

lemma settle_exec:
  assumes "wf_graph r" "wf_graph s" "cmd_ok c s" "pend_ok (c # cs) r"
    "agree_off (h_targets (c # cs)) (t_targets (c # cs)) r s"
  shows "agree_off (h_targets cs) (t_targets cs) (g_exec c r) (g_exec c s)"
proof (cases c)
  case (AddVoxelCommand p v)
  then show ?thesis using assms settle_add [of r s v p "h_targets cs" "t_targets cs"]
    by (simp add: targets_Cons)
next
  case (RemoveVoxelCommand p v)
  have "parent (r v) = Some p \<or> parent (r v) = None"
    using assms(4) RemoveVoxelCommand by (simp add: pend_ok_def)
  then show ?thesis
    using assms RemoveVoxelCommand settle_remove [of r s v "h_targets cs" "t_targets cs" p]
    by (simp add: targets_Cons)
next
  case (TransformCommand ob ns)
  then show ?thesis using assms settle_transform [of "h_targets cs" ob "t_targets cs" r s ns]
    by (simp add: targets_Cons)
qed

lemma redo_phase:
  "wf_graph r \<Longrightarrow> wf_graph s \<Longrightarrow> cmds_ok cs s \<Longrightarrow> pend_ok cs r \<Longrightarrow>
   agree_off (h_targets cs) (t_targets cs) r s \<Longrightarrow>
   fold g_exec cs r = fold g_exec cs s"
proof (induction cs arbitrary: r s)
  case Nil
  then show ?case by (simp add: h_targets_def t_targets_def agree_off_eq)
next
  case (Cons c cs)
  let ?r = "g_exec c r" and ?s = "g_exec c s"
  have wfr: "wf_graph ?r" and wfs: "wf_graph ?s"
    using Cons.prems(1,2) by (simp_all add: wf_g_exec)
  have ok: "cmd_ok c s" "cmds_ok cs ?s" using Cons.prems(3) by simp_all
  have ag: "agree_off (h_targets cs) (t_targets cs) ?r ?s"
    using settle_exec [OF Cons.prems(1,2) ok(1) Cons.prems(4,5)] .
  have ps: "pend_ok cs ?s" using cmds_ok_pend_ok [OF wfs ok(2)] .
  have pr: "pend_ok cs ?r" unfolding pend_ok_def
  proof (intro allI impI)
    fix v p
    assume f: "find (\<lambda>c. h_target c = Some v) cs = Some (RemoveVoxelCommand p v)"
    then have sv: "parent (?s v) = Some p \<or> parent (?s v) = None"
      using ps by (simp add: pend_ok_def)
    show "parent (?r v) = Some p \<or> parent (?r v) = None"
    proof (cases "h_target c = Some v")
      case True
      have "parent (?r v) = parent (?s v)"
      proof (cases c)
        case (AddVoxelCommand q u)
        then show ?thesis using True Cons.prems(1,2) ok(1) by (simp add: add_child_parent)
      next
        case (RemoveVoxelCommand q u)
        then have u: "u = v" using True by simp
        have "parent (r v) = Some q \<or> parent (r v) = None"
          using Cons.prems(4) RemoveVoxelCommand u by (simp add: pend_ok_def)
        moreover have "parent (s v) = Some q \<or> parent (s v) = None"
          using ok(1) RemoveVoxelCommand u by simp
        ultimately show ?thesis using RemoveVoxelCommand u Cons.prems(1,2)
          by (auto simp: remove_child_parent)
      next
        case (TransformCommand ob ns)
        then show ?thesis using True by simp
      qed
      then show ?thesis using sv by simp
    next
      case False
      then have "find (\<lambda>c. h_target c = Some v) (c # cs) = Some (RemoveVoxelCommand p v)"
        using f by simp
      then have "parent (r v) = Some p \<or> parent (r v) = None"
        using Cons.prems(4) by (simp add: pend_ok_def)
      then show ?thesis using exec_parent_other [OF Cons.prems(1) False] by simp
    qed
  qed
  show ?case using Cons.IH [OF wfr wfs ok(2) pr ag] by simp
qed

lemma undo_phase:
  "wf_graph g \<Longrightarrow> cmds_ok cs g \<Longrightarrow>
   wf_graph (foldr (g_undo gs) cs (fold g_exec cs g)) \<and>
   agree_off (h_targets cs) (t_targets cs) (foldr (g_undo gs) cs (fold g_exec cs g)) g \<and>
   pend_ok cs (foldr (g_undo gs) cs (fold g_exec cs g))"
proof (induction cs arbitrary: g)
  case Nil
  then show ?case by (simp add: agree_off_refl pend_ok_def)
next
  case (Cons c cs)
  let ?g1 = "g_exec c g"
  let ?t1 = "foldr (g_undo gs) cs (fold g_exec cs ?g1)"
  let ?t = "g_undo gs c ?t1"
  have wf1: "wf_graph ?g1" using Cons.prems(1) by (rule wf_g_exec)
  have ok: "cmd_ok c g" "cmds_ok cs ?g1" using Cons.prems(2) by simp_all
  from Cons.IH [OF wf1 ok(2)]
  have wft1: "wf_graph ?t1" and ag1: "agree_off (h_targets cs) (t_targets cs) ?t1 ?g1"
    and p1: "pend_ok cs ?t1" by simp_all
  have wft: "wf_graph ?t" using wft1 by (rule wf_g_undo)
  have sub: "h_targets [c] \<subseteq> h_targets (c # cs)" "t_targets [c] \<subseteq> t_targets (c # cs)"
    "h_targets cs \<subseteq> h_targets (c # cs)" "t_targets cs \<subseteq> t_targets (c # cs)"
    by (auto simp: h_targets_def t_targets_def)
  have a: "agree_off (h_targets (c # cs)) (t_targets (c # cs)) ?t ?t1"
    using agree_off_mono [OF frame_undo [OF wft1] sub(1,2)] .
  have b: "agree_off (h_targets (c # cs)) (t_targets (c # cs)) ?t1 ?g1"
    using agree_off_mono [OF ag1 sub(3,4)] .
  have c: "agree_off (h_targets (c # cs)) (t_targets (c # cs)) ?g1 g"
    using agree_off_mono [OF frame_exec [OF Cons.prems(1)] sub(1,2)] .
  have ag: "agree_off (h_targets (c # cs)) (t_targets (c # cs)) ?t g"
    using agree_off_trans [OF agree_off_trans [OF a b] c] .
  have pt: "pend_ok (c # cs) ?t" unfolding pend_ok_def
  proof (intro allI impI)
    fix v p
    assume f: "find (\<lambda>c. h_target c = Some v) (c # cs) = Some (RemoveVoxelCommand p v)"
    show "parent (?t v) = Some p \<or> parent (?t v) = None"
    proof (cases "h_target c = Some v")
      case True
      then have c: "c = RemoveVoxelCommand p v" using f by simp
      then have "v \<noteq> p" using ok(1) by simp
      then show ?thesis using c wft1 by (simp add: add_child_parent)
    next
      case False
      then have "find (\<lambda>c. h_target c = Some v) cs = Some (RemoveVoxelCommand p v)"
        using f by simp
      then have "parent (?t1 v) = Some p \<or> parent (?t1 v) = None"
        using p1 by (simp add: pend_ok_def)
      then show ?thesis using undo_parent_other [OF wft1 False] by simp
    qed
  qed
  show ?case using wft ag pt by simp
qed

lemma graph_round_trip:
  assumes "wf_graph g" "cmds_ok cs g"
  shows "fold g_exec cs (foldr (g_undo gs) cs (fold g_exec cs g)) = fold g_exec cs g"
  using undo_phase [OF assms, of gs] redo_phase [OF _ assms(1,2)] by blast

section \<open>The history engine\<close>

lemma selectObject_keeps [simp]:
  "history (selectObject ob e) = history e" "index (selectObject ob e) = index e"
  "objs (selectObject ob e) = objs e" "gizmoStart (selectObject ob e) = gizmoStart e"
  by (auto simp: selectObject_def Let_def split: option.splits)

lemma cmd_execute_keeps [simp]:
  "history (cmd_execute c e) = history e" "index (cmd_execute c e) = index e"
  "gizmoStart (cmd_execute c e) = gizmoStart e"
  by (cases c; simp add: Let_def)+

lemma cmd_undo_keeps [simp]:
  "history (cmd_undo c e) = history e" "index (cmd_undo c e) = index e"
  "gizmoStart (cmd_undo c e) = gizmoStart e"
  by (cases c; simp)+

lemma objs_cmd_execute: "objs (cmd_execute c e) = g_exec c (objs e)"
  by (cases c) (simp_all add: Let_def)

lemma objs_cmd_execute_upd [simp]: "objs (cmd_execute c (e\<lparr>index := i\<rparr>)) = g_exec c (objs e)"
  by (simp add: objs_cmd_execute)

lemma objs_cmd_undo: "objs (cmd_undo c e) = g_undo (gizmoStart e) c (objs e)"
  by (cases c) simp_all

lemma execute_fields:
  "history (execute c e) =
     (if index e < int (length (history e)) - 1 then slice0 (history e) (index e + 1)
      else history e) @ [c]"
  "index (execute c e) = index e + 1"
  "objs (execute c e) = g_exec c (objs e)"
  "gizmoStart (execute c e) = gizmoStart e"
  by (simp_all add: execute_def Let_def objs_cmd_execute)

lemma at_end_first:
  assumes "cursor_ok e"
  shows "\<exists>H. at_end (execute c e) H [c]"
proof (cases "index e < int (length (history e)) - 1")
  case True
  then have "at_end (execute c e) (take (nat (index e + 1)) (history e)) [c]"
    using assms by (auto simp: at_end_def execute_fields slice0_def cursor_ok_def)
  then show ?thesis ..
next
  case False
  then have "at_end (execute c e) (history e) [c]"
    using assms by (auto simp: at_end_def execute_fields cursor_ok_def)
  then show ?thesis ..
qed

lemma at_end_execute: "at_end e H ds \<Longrightarrow> at_end (execute c e) H (ds @ [c])"
  by (auto simp: at_end_def execute_fields)

lemma at_end_executes: "at_end e H ds \<Longrightarrow> at_end (executes cs e) H (ds @ cs)"
proof (induction cs arbitrary: e ds)
  case Nil
  then show ?case by simp
next
  case (Cons c cs)
  from Cons.IH [OF at_end_execute [OF Cons.prems, of c]] show ?case by simp
qed

lemma executes_fields:
  "objs (executes cs e) = fold g_exec cs (objs e)"
  "gizmoStart (executes cs e) = gizmoStart e"
  by (induction cs arbitrary: e) (simp_all add: execute_fields)

lemma undoN_run:
  "history e = H @ cs @ T \<Longrightarrow> index e = int (length H) + int (length cs) - 1 \<Longrightarrow>
   \<exists>e'. undoN (length cs) e = Some e' \<and> history e' = history e \<and>
        index e' = int (length H) - 1 \<and> gizmoStart e' = gizmoStart e \<and>
        objs e' = foldr (g_undo (gizmoStart e)) cs (objs e)"
proof (induction cs arbitrary: e T rule: rev_induct)
  case Nil
  then show ?case by simp
next
  case (snoc c cs)
  let ?e1 = "(cmd_undo c e)\<lparr>index := index e - 1\<rparr>"
  have i: "nat (index e) = length H + length cs" using snoc.prems(2) by simp
  then have nth: "history e ! nat (index e) = c"
    using snoc.prems(1) by (simp add: nth_append)
  have u: "undo e = Some ?e1"
    using snoc.prems nth i by (simp add: undo_def)
  have h1: "history ?e1 = H @ cs @ (c # T)" using snoc.prems(1) by simp
  have i1: "index ?e1 = int (length H) + int (length cs) - 1" using snoc.prems(2) by simp
  from snoc.IH [OF h1 i1] obtain e' where e': "undoN (length cs) ?e1 = Some e'"
    "history e' = history ?e1" "index e' = int (length H) - 1"
    "gizmoStart e' = gizmoStart ?e1"
    "objs e' = foldr (g_undo (gizmoStart ?e1)) cs (objs ?e1)" by blast
  have "undoN (length (cs @ [c])) e = Some e'" using u e'(1) by simp
  moreover have "objs e' = foldr (g_undo (gizmoStart e)) (cs @ [c]) (objs e)"
    using e'(5) by (simp add: objs_cmd_undo)
  ultimately show ?case using e'(2,3,4) by simp
qed

lemma redoN_run:
  "history e = H @ cs @ T \<Longrightarrow> index e = int (length H) - 1 \<Longrightarrow>
   \<exists>e'. redoN (length cs) e = Some e' \<and> history e' = history e \<and>
        index e' = int (length H) + int (length cs) - 1 \<and> gizmoStart e' = gizmoStart e \<and>
        objs e' = fold g_exec cs (objs e)"
proof (induction cs arbitrary: e H)
  case Nil
  then show ?case by simp
next
  case (Cons c cs)
  let ?e1 = "cmd_execute c (e\<lparr>index := index e + 1\<rparr>)"
  have nth: "history e ! length H = c" using Cons.prems(1) by (simp add: nth_append)
  have r: "redo e = Some ?e1"
    using Cons.prems nth by (simp add: redo_def Let_def)
  have h1: "history ?e1 = (H @ [c]) @ cs @ T" using Cons.prems(1) by simp
  have i1: "index ?e1 = int (length (H @ [c])) - 1" using Cons.prems(2) by simp
  from Cons.IH [OF h1 i1] obtain e' where e': "redoN (length cs) ?e1 = Some e'"
    "history e' = history ?e1" "index e' = int (length (H @ [c])) + int (length cs) - 1"
    "gizmoStart e' = gizmoStart ?e1" "objs e' = fold g_exec cs (objs ?e1)" by blast
  have "redoN (length (c # cs)) e = Some e'" using r e'(1) by simp
  moreover have "objs e' = fold g_exec (c # cs) (objs e)" using e'(5) by simp
  ultimately show ?case using e'(2,3,4) by simp
qed

lemma cursor_ok_execute: "cursor_ok e \<Longrightarrow> cursor_ok (execute c e)"
  by (auto simp: cursor_ok_def execute_fields slice0_def)

lemma cursor_ok_undo: "cursor_ok e \<Longrightarrow> \<exists>e'. undo e = Some e' \<and> cursor_ok e'"
  by (auto simp: cursor_ok_def undo_def)

lemma cursor_ok_redo: "cursor_ok e \<Longrightarrow> \<exists>e'. redo e = Some e' \<and> cursor_ok e'"
  by (auto simp: cursor_ok_def redo_def Let_def)

lemma run_hops_cursor_ok:
  "cursor_ok e \<Longrightarrow> \<exists>e'. run_hops hs e = Some e' \<and> cursor_ok e'"
proof (induction hs arbitrary: e)
  case Nil
  then show ?case by simp
next
  case (Cons h hs)
  show ?case
  proof (cases h)
    case (Execute c)
    then show ?thesis using Cons.IH [OF cursor_ok_execute [OF Cons.prems]] by simp
  next
    case Undo
    from cursor_ok_undo [OF Cons.prems] obtain e1 where "undo e = Some e1" "cursor_ok e1" by blast
    then show ?thesis using Cons.IH [of e1] Undo by simp
  next
    case Redo
    from cursor_ok_redo [OF Cons.prems] obtain e1 where "redo e = Some e1" "cursor_ok e1" by blast
    then show ?thesis using Cons.IH [of e1] Redo by simp
  qed
qed



section \<open>The example scene is a consistent graph\<close>

lemmas ids = scene_def controlGizmo_def selectionBox_def ghostCursor_def
lemmas gops = add_child_def removeFromParent_def remove_child_def Let_def
lemmas demo_defs = demo_editor_def initial_editor_def demo_graph_def new_object_def box_mesh_def

lemmas handler_defs = mousemove_def mousedown_def build_voxel_def keydown_def undo_def
  setTool_def selectObject_def execute_def select_filter_def lock_walk.simps hover_filter_def
  snap_target_def target_pos_def snap_def js_round_def hit_at_def key_press_def
  toLowerCase_def lower_char_def updateGhostGeometry_def

lemma wf_fresh_upd:
  assumes "wf_graph g" "parent (g a) = None" "children (g a) = []"
    "parent x = None" "children x = []"
  shows "wf_graph (g(a := x))"
proof -
  have "\<And>v. parent (g v) \<noteq> Some a"
    using assms(1,3) wf_notin [of g _ a] by (metis wf_graph_def empty_iff empty_set)
  then show ?thesis using assms unfolding wf_graph_def by auto
qed

lemma wf_demo_graph: "wf_graph demo_graph"
proof -
  have "wf_graph ((\<lambda>_. new_object)
                (10 := box_mesh 4 0xff0000 (2, - 8 / 5, 3),
                 11 := new_object\<lparr>locked := True, position := (20, 0, 0)\<rparr>,
                 12 := box_mesh 7 0x0000ff (0, 0, 0),
                 13 := (box_mesh 1 0xffffff (0, 0, 20))\<lparr>isInstancedMesh := True,
                          instanceMatrix := [identity4, translate_x2],
                          instanceColor := Some [0x111111, 0x222222]\<rparr>))"
    by (simp add: wf_graph_def new_object_def box_mesh_def)
  then show ?thesis unfolding demo_graph_def by (intro wf_add_child)
qed

lemma wf_initial_editor:
  assumes "wf_graph g"
    "parent (g controlGizmo) = None" "children (g controlGizmo) = []"
    "parent (g selectionBox) = None" "children (g selectionBox) = []"
    "parent (g ghostCursor) = None" "children (g ghostCursor) = []"
  shows "wf_graph (objs (initial_editor g))"
proof -
  have "wf_graph (g(controlGizmo := new_object, selectionBox := new_object,
                 ghostCursor := new_object\<lparr>geometry_type := ''BoxGeometry'',
                    geometry_width := Some 1, material_color := Some 0x00ff00\<rparr>))"
    using assms by (intro wf_fresh_upd) (simp_all add: new_object_def ids)
  then show ?thesis by (simp add: initial_editor_def wf_add_child)
qed

lemma wf_demo_editor: "wf_graph (objs demo_editor)"
  unfolding demo_editor_def
  by (rule wf_initial_editor [OF wf_demo_graph]) (simp_all add: demo_graph_def gops ids new_object_def box_mesh_def)

section \<open>Claims about the command history\<close>

text \<open>
  Claim C7: in every state that a sequence of \<^verbatim>\<open>execute\<close>, \<^verbatim>\<open>undo\<close> and \<^verbatim>\<open>redo\<close> calls
  reaches from the empty history, the cursor index lies between \<open>-1\<close> and the length of the
  log minus one; no call of the sequence throws.
\<close>

theorem cursor_within_bounds:
  assumes "history e = []" and "index e = - 1"
  shows "\<exists>e'. run_hops hs e = Some e' \<and>
           - 1 \<le> index e' \<and> index e' \<le> int (length (history e')) - 1"
  using run_hops_cursor_ok [of e hs] assms by (simp add: cursor_ok_def)

theorem cursor_within_bounds_witness:
  "history demo_editor = [] \<and> index demo_editor = - 1 \<and>
   (\<exists>e'. run_hops [Execute (AddVoxelCommand 11 20), Undo, Undo, Redo, Redo,
                     Execute (RemoveVoxelCommand 0 10), Undo] demo_editor = Some e' \<and>
         - 1 \<le> index e' \<and> index e' \<le> int (length (history e')) - 1)"
  using cursor_within_bounds [of demo_editor
      "[Execute (AddVoxelCommand 11 20), Undo, Undo, Redo, Redo,
        Execute (RemoveVoxelCommand 0 10), Undo]"]
  by (simp add: demo_editor_def initial_editor_def)

text \<open>
  Claim C2: when the cursor stands \<open>k\<close> undos before the end of the log, \<^verbatim>\<open>execute(cmd)\<close>
  applies the command, drops exactly the \<open>k\<close> entries past the cursor, appends the command
  and moves the cursor one step, to the end of the log; a \<^verbatim>\<open>redo\<close> right after it changes
  nothing.
\<close>

theorem execute_after_undos:
  assumes "index e = int (length (history e)) - 1 - int k" and "k \<le> length (history e)"
  shows "execute cmd e =
           (cmd_execute cmd e)\<lparr>history := take (length (history e) - k) (history e) @ [cmd],
                                index := index e + 1\<rparr> \<and>
         length (history (execute cmd e)) = length (history e) - k + 1 \<and>
         index (execute cmd e) = int (length (history (execute cmd e))) - 1 \<and>
         redo (execute cmd e) = Some (execute cmd e)"
proof -
  have n: "nat (int (length (history e)) - int k) = length (history e) - k"
    using assms(2) by simp
  have 1: "execute cmd e =
           (cmd_execute cmd e)\<lparr>history := take (length (history e) - k) (history e) @ [cmd],
                                index := index e + 1\<rparr>"
    using assms by (cases "k = 0") (simp_all add: execute_def Let_def slice0_def n)
  have 2: "length (history (execute cmd e)) = length (history e) - k + 1"
    using assms by (simp add: 1)
  have 3: "index (execute cmd e) = int (length (history (execute cmd e))) - 1"
    using assms by (simp add: 1)
  have 4: "redo (execute cmd e) = Some (execute cmd e)"
    using 3 by (simp add: redo_def)
  show ?thesis using 1 2 3 4 by blast
qed

theorem execute_after_undos_witness:
  "(case undo (executes [AddVoxelCommand 11 20, RemoveVoxelCommand 0 10] demo_editor) of
      None \<Rightarrow> False
    | Some e \<Rightarrow>
        index e = int (length (history e)) - 1 - int 1 \<and> 1 \<le> length (history e) \<and>
        history (execute (AddVoxelCommand 11 21) e) = [AddVoxelCommand 11 20, AddVoxelCommand 11 21] \<and>
        index (execute (AddVoxelCommand 11 21) e) = 1 \<and>
        redo (execute (AddVoxelCommand 11 21) e) = Some (execute (AddVoxelCommand 11 21) e))"
proof -
  let ?a = "executes [AddVoxelCommand 11 20, RemoveVoxelCommand 0 10] demo_editor"
  let ?b = "(cmd_undo (RemoveVoxelCommand 0 10) ?a)\<lparr>index := 0\<rparr>"
  have h0a: "history ?a = [AddVoxelCommand 11 20, RemoveVoxelCommand 0 10]"
    by (simp add: execute_fields demo_editor_def initial_editor_def)
  have h0b: "index ?a = 1"
    by (simp add: execute_fields demo_editor_def initial_editor_def)
  note h0 = h0a h0b
  have u: "undo ?a = Some ?b"
    by (simp add: undo_def h0 del: executes.simps cmd_undo.simps)
  have h: "history ?b = [AddVoxelCommand 11 20, RemoveVoxelCommand 0 10]" "index ?b = 0"
    using h0 by (simp_all del: executes.simps)
  have hyp1: "index ?b = int (length (history ?b)) - 1 - int 1"
    by (simp only: h) simp
  have hyp2: "1 \<le> length (history ?b)"
    by (simp only: h) simp
  note t = execute_after_undos [OF hyp1 hyp2, of "AddVoxelCommand 11 21"]
  note t1 = t [THEN conjunct1]
  note t3 = t [THEN conjunct2, THEN conjunct2, THEN conjunct1]
  note t4 = t [THEN conjunct2, THEN conjunct2, THEN conjunct2]
  have hist: "history (execute (AddVoxelCommand 11 21) ?b) =
                [AddVoxelCommand 11 20, AddVoxelCommand 11 21]"
    by (subst t1) (simp add: h del: executes.simps cmd_undo.simps cmd_execute.simps)
  have idx: "index (execute (AddVoxelCommand 11 21) ?b) = 1"
    by (simp only: t3 hist) simp
  show ?thesis unfolding u option.case
    by (intro conjI hyp1 hyp2 hist idx t4)
qed

lemma executes_same:
  assumes "history a = history b" "index a = index b" "objs a = objs b"
  shows "history (executes cs a) = history (executes cs b) \<and>
         index (executes cs a) = index (executes cs b) \<and>
         objs (executes cs a) = objs (executes cs b)"
  using assms
proof (induction cs arbitrary: a b)
  case Nil
  then show ?case by simp
next
  case (Cons c cs)
  have "history (execute c a) = history (execute c b)" "index (execute c a) = index (execute c b)"
    "objs (execute c a) = objs (execute c b)"
    using Cons.prems by (simp_all add: execute_fields)
  from Cons.IH [OF this] show ?case by simp
qed

lemma run_steps_executes:
  "history (run_steps steps e) = history (executes (map snd steps) e) \<and>
   index (run_steps steps e) = index (executes (map snd steps) e) \<and>
   objs (run_steps steps e) = objs (executes (map snd steps) e)"
proof (induction steps arbitrary: e)
  case Nil
  then show ?case by simp
next
  case (Cons st steps)
  obtain snapshot c where st: "st = (snapshot, c)" by (cases st)
  let ?a = "case snapshot of None \<Rightarrow> e | Some t \<Rightarrow> e\<lparr>gizmoStart := t\<rparr>"
  have same: "history (execute c ?a) = history (execute c e)"
    "index (execute c ?a) = index (execute c e)" "objs (execute c ?a) = objs (execute c e)"
    by (simp_all add: execute_fields split: option.splits)
  from Cons.IH [of "execute c ?a"] executes_same [OF same, of "map snd steps"]
  show ?case by (simp add: st)
qed


text \<open>
  A single \<^verbatim>\<open>undo\<close> of a transform is not a step back in general: every
  \<^verbatim>\<open>TransformCommand\<close> holds the one \<^verbatim>\<open>gizmoStart\<close> object as its old state (line 1131),
  so after a drag of object 10 and a drag of object 13 the second undo puts object 10
  where object 13 started.
\<close>

lemma undo_transform_reads_shared_snapshot:
  "position (objs demo_editor 10) = (2, - 8 / 5, 3) \<and>
   map_option (\<lambda>e. position (objs e 10))
     (undoN 2 (run_steps
        [(Some (transform_of (objs demo_editor 10)),
          TransformCommand 10 \<lparr>ts_position = (2, - 8 / 5, 9), ts_quaternion = (0, 0, 0, 1),
                                ts_scale = (1, 1, 1)\<rparr>),
         (Some (transform_of (objs demo_editor 13)),
          TransformCommand 13 \<lparr>ts_position = (0, 0, 30), ts_quaternion = (0, 0, 0, 1),
                                ts_scale = (2, 2, 2)\<rparr>)] demo_editor)) = Some (0, 0, 20)"
  by (simp add: numeral_2_eq_2 undo_def execute_def slice0_def transform_of_def
      set_transform_def demo_defs gops ids)

text \<open>
  Claim C1: after \<open>N\<close> commands have been executed through the history, \<open>N\<close> calls of
  \<^verbatim>\<open>undo\<close> followed by \<open>N\<close> calls of \<^verbatim>\<open>redo\<close> all return and leave the graph exactly as it
  was after the \<open>N\<close>-th \<^verbatim>\<open>execute\<close>: the same parents and child lists, transforms, lock
  flags and every other field of every object, with the log and the cursor as they were.
  The graph is a consistent three.js graph and the commands are as the editor constructs
  them; drag starts may overwrite \<^verbatim>\<open>gizmoStart\<close> between the commands.
\<close>

theorem undo_redo_round_trip:
  assumes "wf_graph (objs e)" and "cursor_ok e" and "cmds_ok (map snd steps) (objs e)"
  shows "\<exists>e1 e2. undoN (length steps) (run_steps steps e) = Some e1 \<and>
           redoN (length steps) e1 = Some e2 \<and>
           objs e2 = objs (run_steps steps e) \<and>
           history e2 = history (run_steps steps e) \<and> index e2 = index (run_steps steps e)"
proof (cases steps)
  case Nil
  then show ?thesis by simp
next
  case (Cons st steps')
  let ?cs = "map snd steps"
  let ?eN = "run_steps steps e"
  obtain c cs' where cs: "?cs = c # cs'" using Cons by simp
  from at_end_first [OF assms(2), of c] obtain H where "at_end (execute c e) H [c]" ..
  from at_end_executes [OF this, of cs'] have "at_end (executes ?cs e) H ?cs" using cs by simp
  then have h: "history ?eN = H @ ?cs @ []"
    and i: "index ?eN = int (length H) + int (length ?cs) - 1"
    using run_steps_executes [of steps e] by (simp_all add: at_end_def)
  have o: "objs ?eN = fold g_exec ?cs (objs e)"
    using run_steps_executes [of steps e] by (simp add: executes_fields)
  from undoN_run [OF h i] obtain e1 where e1: "undoN (length ?cs) ?eN = Some e1"
    "history e1 = history ?eN" "index e1 = int (length H) - 1"
    "objs e1 = foldr (g_undo (gizmoStart ?eN)) ?cs (objs ?eN)" by blast
  have h1: "history e1 = H @ ?cs @ []" using e1(2) h by simp
  from redoN_run [OF h1 e1(3)] obtain e2 where e2: "redoN (length ?cs) e1 = Some e2"
    "history e2 = history e1" "index e2 = int (length H) + int (length ?cs) - 1"
    "objs e2 = fold g_exec ?cs (objs e1)" by blast
  have "objs e2 = objs ?eN"
    using e2(4) e1(4) o graph_round_trip [OF assms(1,3)] by simp
  then show ?thesis using e1(1,2) e2(1,2,3) i by auto
qed

theorem undo_redo_round_trip_witness:
  "wf_graph (objs demo_editor) \<and> cursor_ok demo_editor \<and>
   cmds_ok (map snd
     [(Some (transform_of (objs demo_editor 10)),
       TransformCommand 10 \<lparr>ts_position = (2, - 8 / 5, 9), ts_quaternion = (0, 0, 0, 1),
                             ts_scale = (1, 1, 1)\<rparr>),
      (Some (transform_of (objs demo_editor 13)),
       TransformCommand 13 \<lparr>ts_position = (0, 0, 30), ts_quaternion = (0, 0, 0, 1),
                             ts_scale = (2, 2, 2)\<rparr>),
      (None, RemoveVoxelCommand 0 10), (None, AddVoxelCommand 11 20)]) (objs demo_editor) \<and>
   (\<exists>e1 e2.
      undoN 4 (run_steps
        [(Some (transform_of (objs demo_editor 10)),
          TransformCommand 10 \<lparr>ts_position = (2, - 8 / 5, 9), ts_quaternion = (0, 0, 0, 1),
                                ts_scale = (1, 1, 1)\<rparr>),
         (Some (transform_of (objs demo_editor 13)),
          TransformCommand 13 \<lparr>ts_position = (0, 0, 30), ts_quaternion = (0, 0, 0, 1),
                                ts_scale = (2, 2, 2)\<rparr>),
         (None, RemoveVoxelCommand 0 10), (None, AddVoxelCommand 11 20)] demo_editor) = Some e1 \<and>
      redoN 4 e1 = Some e2 \<and>
      objs e2 = objs (run_steps
        [(Some (transform_of (objs demo_editor 10)),
          TransformCommand 10 \<lparr>ts_position = (2, - 8 / 5, 9), ts_quaternion = (0, 0, 0, 1),
                                ts_scale = (1, 1, 1)\<rparr>),
         (Some (transform_of (objs demo_editor 13)),
          TransformCommand 13 \<lparr>ts_position = (0, 0, 30), ts_quaternion = (0, 0, 0, 1),
                                ts_scale = (2, 2, 2)\<rparr>),
         (None, RemoveVoxelCommand 0 10), (None, AddVoxelCommand 11 20)] demo_editor))"
proof -
  let ?st = "[(Some (transform_of (objs demo_editor 10)),
          TransformCommand 10 \<lparr>ts_position = (2, - 8 / 5, 9), ts_quaternion = (0, 0, 0, 1),
                                ts_scale = (1, 1, 1)\<rparr>),
         (Some (transform_of (objs demo_editor 13)),
          TransformCommand 13 \<lparr>ts_position = (0, 0, 30), ts_quaternion = (0, 0, 0, 1),
                                ts_scale = (2, 2, 2)\<rparr>),
         (None, RemoveVoxelCommand 0 10), (None, AddVoxelCommand 11 20)]"
  have c: "cursor_ok demo_editor"
    by (simp add: cursor_ok_def demo_editor_def initial_editor_def)
  have p: "parent (objs demo_editor 10) = Some 0"
    by (simp add: demo_defs gops ids)
  have k: "cmds_ok (map snd ?st) (objs demo_editor)"
    by (simp add: p set_transform_fields)
  have l: "length ?st = 4" by simp
  from undo_redo_round_trip [OF wf_demo_editor c k] obtain e1 e2 where
    "undoN (length ?st) (run_steps ?st demo_editor) = Some e1" "redoN (length ?st) e1 = Some e2"
    "objs e2 = objs (run_steps ?st demo_editor)" by blast
  then have "\<exists>e1 e2. undoN 4 (run_steps ?st demo_editor) = Some e1 \<and> redoN 4 e1 = Some e2 \<and>
      objs e2 = objs (run_steps ?st demo_editor)"
    unfolding l by blast
  then show ?thesis using wf_demo_editor c k by blast
qed

section \<open>Claims about selection and locked objects\<close>

lemma selectObject_fields:
  "selectedObject (selectObject ob e) = ob"
  "selectionBox_visible (selectObject ob e) = (ob \<noteq> None)"
  "activeTool (selectObject ob e) = activeTool e"
  by (auto simp: selectObject_def Let_def split: option.splits)

lemma selectObject_Some:
  "selectionBox_object (selectObject (Some ob) e) = Some ob"
  "locked (objs e ob) \<Longrightarrow> gizmo_object (selectObject (Some ob) e) = None"
  by (auto simp: selectObject_def Let_def)

text \<open>
  Claim C10: a primary click on the tree row of any object, locked or not, makes it the
  selection and shows the selection box on it; when the object is locked the gizmo ends
  detached.
\<close>

theorem tree_row_click_selects:
  "selectedObject (tree_row_mousedown 0 ob e) = Some ob \<and>
   selectionBox_visible (tree_row_mousedown 0 ob e) \<and>
   selectionBox_object (tree_row_mousedown 0 ob e) = Some ob \<and>
   (locked (objs e ob) \<longrightarrow> gizmo_object (tree_row_mousedown 0 ob e) = None)"
  by (simp add: tree_row_mousedown_def selectObject_fields selectObject_Some)

theorem tree_row_click_selects_witness:
  "locked (objs (setTool Move (selectObject (Some 10) demo_editor)) 11) \<and>
   gizmo_object (setTool Move (selectObject (Some 10) demo_editor)) = Some 10 \<and>
   selectedObject (tree_row_mousedown 0 11 (setTool Move (selectObject (Some 10) demo_editor)))
     = Some 11 \<and>
   selectionBox_visible (tree_row_mousedown 0 11 (setTool Move (selectObject (Some 10) demo_editor))) \<and>
   gizmo_object (tree_row_mousedown 0 11 (setTool Move (selectObject (Some 10) demo_editor)))
     = None"
proof -
  let ?a = "setTool Move (selectObject (Some 10) demo_editor)"
  have o: "objs ?a = objs demo_editor"
    by (simp add: setTool_def selectObject_def Let_def split: option.splits)
  have l: "locked (objs ?a 11)" "\<not> locked (objs ?a 10)"
    unfolding o by (simp_all add: demo_defs gops ids)
  have g: "gizmo_object ?a = Some 10"
    using l(2) unfolding o by (simp add: setTool_def selectObject_def Let_def)
  from tree_row_click_selects [of 11 ?a] l(1) g show ?thesis by blast
qed

text \<open>
  Claim C8: for a locked object, the Delete and the Clone item of its context menu, and
  the Delete or Backspace key while it is selected, execute no command: the log, the
  cursor and the graph stay as they are.
\<close>

theorem locked_node_not_deleted_or_cloned:
  assumes "locked (objs e ob)"
  shows "map ctx_label (ctxMenu_items (showCtxMenu ob e)) = [CtxDelete, CtxClone, CtxFocus] \<and>
         (\<forall>i < 2.
            history (ctx_click clone has_controls i (showCtxMenu ob e)) = history e \<and>
            index (ctx_click clone has_controls i (showCtxMenu ob e)) = index e \<and>
            objs (ctx_click clone has_controls i (showCtxMenu ob e)) = objs e) \<and>
         (selectedObject e = Some ob \<and>
          (toLowerCase (ev_key ev) = ''delete'' \<or> toLowerCase (ev_key ev) = ''backspace'')
          \<longrightarrow> keydown ev e = Some e)"
proof -
  let ?m = "showCtxMenu ob e"
  have m: "objs ?m = objs e" "history ?m = history e" "index ?m = index e" "ctxMenu_display ?m"
    "ctxMenu_items ?m =
       [\<lparr>ctx_label = CtxDelete, ctx_enabled = False, ctx_target = ob\<rparr>,
        \<lparr>ctx_label = CtxClone, ctx_enabled = False, ctx_target = ob\<rparr>,
        \<lparr>ctx_label = CtxFocus, ctx_enabled = True, ctx_target = ob\<rparr>]"
    using assms by (simp_all add: showCtxMenu_def Let_def)
  have 1: "map ctx_label (ctxMenu_items ?m) = [CtxDelete, CtxClone, CtxFocus]"
    by (simp add: m)
  have 2: "history (ctx_click clone has_controls i ?m) = history e \<and>
           index (ctx_click clone has_controls i ?m) = index e \<and>
           objs (ctx_click clone has_controls i ?m) = objs e" if "i < 2" for i
  proof -
    from that have "i = 0 \<or> i = 1" by auto
    then show ?thesis by (auto simp: ctx_click_def m Let_def)
  qed
  have 3: "keydown ev e = Some e"
    if "selectedObject e = Some ob"
      "toLowerCase (ev_key ev) = ''delete'' \<or> toLowerCase (ev_key ev) = ''backspace''"
    using that assms by (auto simp: keydown_def toolDefs_def Let_def)
  show ?thesis using 1 2 3 by blast
qed

theorem locked_node_not_deleted_or_cloned_witness:
  "locked (objs (selectObject (Some 11) demo_editor) 11) \<and>
   selectedObject (selectObject (Some 11) demo_editor) = Some 11 \<and>
   toLowerCase (ev_key (key_press False ''Delete'')) = ''delete'' \<and>
   history (ctx_click leaf_clone True 0 (showCtxMenu 11 (selectObject (Some 11) demo_editor))) = [] \<and>
   history (ctx_click leaf_clone True 1 (showCtxMenu 11 (selectObject (Some 11) demo_editor))) = [] \<and>
   objs (ctx_click leaf_clone True 0 (showCtxMenu 11 (selectObject (Some 11) demo_editor)))
     = objs demo_editor \<and>
   keydown (key_press False ''Delete'') (selectObject (Some 11) demo_editor)
     = Some (selectObject (Some 11) demo_editor)"
proof -
  let ?a = "selectObject (Some 11) demo_editor"
  have o: "objs ?a = objs demo_editor" "history ?a = []"
    by (simp_all add: demo_editor_def initial_editor_def)
  have l: "locked (objs ?a 11)"
    unfolding o by (simp add: demo_defs gops ids)
  have s: "selectedObject ?a = Some 11" by (simp add: selectObject_fields)
  have k: "toLowerCase (ev_key (key_press False ''Delete'')) = ''delete''"
    by (simp add: key_press_def toLowerCase_def lower_char_def)
  from locked_node_not_deleted_or_cloned [OF l, of leaf_clone True "key_press False ''Delete''"]
  show ?thesis using l s k o by simp
qed

section \<open>Claims about Build and Break\<close>

lemma execute_keeps_position:
  "position (objs (execute (AddVoxelCommand p v) e) w) = position (objs e w)"
  by (simp add: execute_fields add_child_other)

lemma build_voxel_position:
  assumes "vid \<noteq> gid"
  shows "position (objs (build_voxel userLayer vid gid hv e) vid) =
           (real_of_int (hx hv), real_of_int (hy hv), real_of_int (hz hv))"
  using assms
  by (cases userLayer) (simp_all add: build_voxel_def Let_def execute_keeps_position add_child_other)

lemma scenario_target_pos:
  "target_pos Build 3 (21 / 10, 4 / 10, 29 / 10) (0, 1, 0) = (21 / 10, 19 / 10, 29 / 10)"
  by (simp add: target_pos_def)

lemma scenario_snap: "snap (21 / 10, 19 / 10, 29 / 10) = (2, 2, 3)"
  by (simp add: snap_def js_round_def)

lemma setTool_fields:
  "objs (setTool t e) = objs e" "activeTool (setTool t e) = t"
  "history (setTool t e) = history e" "index (setTool t e) = index e"
  "brushSize (setTool t e) = brushSize e" "hoveredVoxel (setTool t e) = hoveredVoxel e"
  "lastPipetteClick (setTool t e) = lastPipetteClick e"
  "selectedObject (setTool t e) = selectedObject e"
  by (auto simp: setTool_def Let_def split: option.splits)

text \<open>
  Claim C5: with the Build tool, a pointer move over a valid hit stores the snapped
  candidate centre, and the mesh that the following pointer-down creates has exactly that
  centre, so integer coordinates on the three axes, whatever the brush size. For brush size
  3, hit point (2.1, 0.4, 2.9) and normal (0, 1, 0) the candidate is (2.1, 1.9, 2.9) and
  the centre (2, 2, 3).
\<close>

theorem build_center_is_snapped_integer:
  assumes "activeTool e = Build" and "find (hover_filter (objs e)) intersects = Some h"
    and "hit_face_normal h = Some n" and "vid \<noteq> gid"
  shows "\<exists>e1 e2 sx sy sz.
           mousemove intersects e = Some e1 \<and>
           snap (target_pos Build (brushSize e) (hit_point h) n) = (sx, sy, sz) \<and>
           mousedown 0 now xs userLayer vid gid e1 = Some e2 \<and>
           position (objs e2 vid) = (real_of_int sx, real_of_int sy, real_of_int sz) \<and>
           (brushSize e = 3 \<and> hit_point h = (21 / 10, 4 / 10, 29 / 10) \<and> n = (0, 1, 0) \<longrightarrow>
              target_pos Build (brushSize e) (hit_point h) n = (21 / 10, 19 / 10, 29 / 10) \<and>
              position (objs e2 vid) = (2, 2, 3))"
proof -
  obtain sx sy sz where s: "snap (target_pos Build (brushSize e) (hit_point h) n) = (sx, sy, sz)"
    by (metis prod_cases3)
  let ?hv = "\<lparr>hx = sx, hy = sy, hz = sz, hitObj = hit_object h, hitId = hit_instanceId h\<rparr>"
  let ?a = "e\<lparr>objs := (objs e)(ghostCursor := (objs e ghostCursor)
                \<lparr>position := (real_of_int sx, real_of_int sy, real_of_int sz),
                 material_color := Some 0x00ff00\<rparr>),
              ghost_visible := True, hoveredVoxel := Some ?hv\<rparr>"
  have mm: "mousemove intersects e = Some ?a"
    using assms(1,2,3) s by (simp add: mousemove_def snap_target_def)
  let ?b = "build_voxel userLayer vid gid ?hv (?a\<lparr>lastPipetteClick := now\<rparr>)"
  have md: "mousedown 0 now xs userLayer vid gid ?a = Some ?b"
    using assms(1) by (simp add: mousedown_def Let_def)
  have pos: "position (objs ?b vid) = (real_of_int sx, real_of_int sy, real_of_int sz)"
    using build_voxel_position [OF assms(4), of userLayer ?hv] by simp
  have sc: "target_pos Build (brushSize e) (hit_point h) n = (21 / 10, 19 / 10, 29 / 10) \<and>
            position (objs ?b vid) = (2, 2, 3)"
    if "brushSize e = 3 \<and> hit_point h = (21 / 10, 4 / 10, 29 / 10) \<and> n = (0, 1, 0)"
  proof -
    have t: "target_pos Build (brushSize e) (hit_point h) n = (21 / 10, 19 / 10, 29 / 10)"
      using that scenario_target_pos by simp
    then have "(sx, sy, sz) = (2, 2, 3)" using s scenario_snap by simp
    then show ?thesis using t pos by simp
  qed
  show ?thesis using mm s md pos sc by blast
qed


theorem build_center_is_snapped_integer_witness:
  "activeTool (size_input 3 (setTool Build demo_editor)) = Build \<and>
   brushSize (size_input 3 (setTool Build demo_editor)) = 3 \<and>
   find (hover_filter (objs (size_input 3 (setTool Build demo_editor)))) [hit_at (21 / 10, 4 / 10, 29 / 10) 10 None]
     = Some (hit_at (21 / 10, 4 / 10, 29 / 10) 10 None) \<and>
   hit_point (hit_at (21 / 10, 4 / 10, 29 / 10) 10 None) = (21 / 10, 4 / 10, 29 / 10) \<and>
   hit_face_normal (hit_at (21 / 10, 4 / 10, 29 / 10) 10 None) = Some (0, 1, 0) \<and> (20::nat) \<noteq> 21 \<and>
   (\<exists>e1 e2. mousemove [hit_at (21 / 10, 4 / 10, 29 / 10) 10 None] (size_input 3 (setTool Build demo_editor)) = Some e1 \<and>
      mousedown 0 1000 [] None 20 21 e1 = Some e2 \<and>
      position (objs e2 20) = (2, 2, 3))"
proof -
  let ?a = "size_input 3 (setTool Build demo_editor)"
  have t: "activeTool ?a = Build" and b: "brushSize ?a = 3"
    by (simp_all add: size_input_def updateGhostGeometry_def setTool_fields)
  have f: "find (hover_filter (objs ?a)) [hit_at (21 / 10, 4 / 10, 29 / 10) 10 None]
             = Some (hit_at (21 / 10, 4 / 10, 29 / 10) 10 None)"
    by (simp add: size_input_def handler_defs demo_defs gops ids)
  have p: "hit_point (hit_at (21 / 10, 4 / 10, 29 / 10) 10 None) = (21 / 10, 4 / 10, 29 / 10)"
    and n: "hit_face_normal (hit_at (21 / 10, 4 / 10, 29 / 10) 10 None) = Some (0, 1, 0)"
    by (simp_all add: hit_at_def)
  have d: "(20::nat) \<noteq> 21" by simp
  from build_center_is_snapped_integer [OF t f n d, of 1000 "[]" None]
  obtain e1 e2 where "mousemove [hit_at (21 / 10, 4 / 10, 29 / 10) 10 None] ?a = Some e1"
    "mousedown 0 1000 [] None 20 21 e1 = Some e2" "position (objs e2 20) = (2, 2, 3)"
    using b p by auto
  then show ?thesis using t b f p n d by blast
qed

text \<open>
  Claim C6: a Break pointer-down on a hover target whose object is an instanced mesh
  returns with the log and the cursor unchanged; when the mesh is unlocked and the hit
  carries an instance id, the only change to the graph is that this instance's matrix
  becomes the zero scale.
\<close>

theorem break_instance_keeps_history:
  assumes "activeTool e = Break" and "hoveredVoxel e = Some hv"
    and "isInstancedMesh (objs e (hitObj hv))"
  shows "\<exists>e'. mousedown 0 now intersects userLayer vid gid e = Some e' \<and>
           history e' = history e \<and> index e' = index e \<and>
           (\<not> locked (objs e (hitObj hv)) \<and> hitId hv = Some i \<longrightarrow>
              objs e' = (objs e)(hitObj hv := (objs e (hitObj hv))
                 \<lparr>instanceMatrix := (instanceMatrix (objs e (hitObj hv)))[i := makeScale0]\<rparr>))"
  using assms by (auto simp: mousedown_def break_voxel_def Let_def split: option.splits)


theorem break_instance_keeps_history_witness:
  "(case mousemove [hit_at (2, 1 / 2, 20) 13 (Some 1)] (setTool Break demo_editor) of
      None \<Rightarrow> False
    | Some e \<Rightarrow>
        activeTool e = Break \<and>
        hoveredVoxel e = Some \<lparr>hx = 2, hy = 0, hz = 20, hitObj = 13, hitId = Some 1\<rparr> \<and>
        isInstancedMesh (objs e 13) \<and> \<not> locked (objs e 13) \<and>
        (\<exists>e'. mousedown 0 1000 [] None 20 21 e = Some e' \<and>
              history e' = [] \<and> index e' = - 1 \<and>
              instanceMatrix (objs e' 13) = [identity4, makeScale0]))"
proof -
  let ?X = "mousemove [hit_at (2, 1 / 2, 20) 13 (Some 1)] (setTool Break demo_editor)"
  let ?hv = "\<lparr>hx = 2, hy = 0, hz = 20, hitObj = 13, hitId = Some 1\<rparr>"
  have fx: "map_option activeTool ?X = Some Break"
    "map_option hoveredVoxel ?X = Some (Some ?hv)"
    "map_option history ?X = Some []" "map_option index ?X = Some (- 1)"
    "map_option (\<lambda>e. isInstancedMesh (objs e 13)) ?X = Some True"
    "map_option (\<lambda>e. locked (objs e 13)) ?X = Some False"
    "map_option (\<lambda>e. instanceMatrix (objs e 13)) ?X = Some [identity4, translate_x2]"
    by (simp_all add: handler_defs demo_defs gops ids)
  from fx obtain a where a: "?X = Some a" "activeTool a = Break" "hoveredVoxel a = Some ?hv"
    "history a = []" "index a = - 1" "isInstancedMesh (objs a 13)" "\<not> locked (objs a 13)"
    "instanceMatrix (objs a 13) = [identity4, translate_x2]"
    by (cases ?X) auto
  have i: "isInstancedMesh (objs a (hitObj ?hv))" using a(6) by simp
  from break_instance_keeps_history [OF a(2,3) i, of 1000 "[]" None 20 21 1]
  obtain e' where e': "mousedown 0 1000 [] None 20 21 a = Some e'"
    "history e' = history a" "index e' = index a"
    "objs e' = (objs a)(13 := (objs a 13)\<lparr>instanceMatrix := (instanceMatrix (objs a 13))[1 := makeScale0]\<rparr>)"
    using a(7) by auto
  have m: "instanceMatrix (objs e' 13) = [identity4, makeScale0]"
    by (simp only: e'(4) a(8)) simp
  have "activeTool a = Break \<and> hoveredVoxel a = Some ?hv \<and>
        isInstancedMesh (objs a 13) \<and> \<not> locked (objs a 13) \<and>
        (\<exists>e'. mousedown 0 1000 [] None 20 21 a = Some e' \<and>
              history e' = [] \<and> index e' = - 1 \<and>
              instanceMatrix (objs e' 13) = [identity4, makeScale0])"
    using a e' m by simp
  then show ?thesis unfolding a(1) option.case .
qed

section \<open>The lock walk of the Select filter\<close>

lemma on_walk_scene: "\<not> on_walk g scene a"
proof
  assume "on_walk g scene a"
  then show False by (induction rule: on_walk.induct) simp_all
qed

lemma on_walk_prepend:
  assumes "on_walk g p a" and "parent (g c) = Some p" and "c \<noteq> scene"
  shows "on_walk g c a"
  using assms(1)
proof (induction rule: on_walk.induct)
  case start
  have "on_walk g c c" using assms(3) by (rule on_walk.start)
  then show ?case using assms(2) start by (rule on_walk.step)
next
  case (step a b)
  then show ?case by (auto intro: on_walk.step)
qed

lemma on_walk_unfold:
  assumes "c \<noteq> scene"
  shows "on_walk g c a \<longleftrightarrow>
           a = c \<or> (\<exists>p. parent (g c) = Some p \<and> p \<noteq> scene \<and> on_walk g p a)"
proof
  assume "on_walk g c a"
  then show "a = c \<or> (\<exists>p. parent (g c) = Some p \<and> p \<noteq> scene \<and> on_walk g p a)"
  proof (induction rule: on_walk.induct)
    case start
    then show ?case by simp
  next
    case (step a b)
    from step.IH show ?case
    proof
      assume "a = c"
      then show ?thesis using step.hyps(2,3) by (auto intro: on_walk.start)
    next
      assume "\<exists>p. parent (g c) = Some p \<and> p \<noteq> scene \<and> on_walk g p a"
      then show ?thesis using step.hyps(2,3) by (auto intro: on_walk.step)
    qed
  qed
next
  assume "a = c \<or> (\<exists>p. parent (g c) = Some p \<and> p \<noteq> scene \<and> on_walk g p a)"
  then show "on_walk g c a"
    using assms by (auto intro: on_walk.start on_walk_prepend)
qed

lemma lock_walk_sound_aux:
  assumes "lock_walk g check = Some r"
  shows "(check = None \<longrightarrow> r) \<and>
         (\<forall>ob. check = Some ob \<longrightarrow> r = (\<forall>a. on_walk g ob a \<longrightarrow> \<not> locked (g a)))"
  using assms
proof (induction g check r rule: lock_walk.raw_induct [rotated 1, consumes 1])
  case (1 lock_walk' g check r)
  show ?case
  proof (intro conjI allI impI)
    assume "check = None"
    then show r using 1(2) by simp
  next
    fix c assume chk: "check = Some c"
    show "r = (\<forall>a. on_walk g c a \<longrightarrow> \<not> locked (g a))"
    proof (cases "c = scene")
      case True
      then show ?thesis using 1(2) chk by (simp add: on_walk_scene)
    next
      case ns: False
      show ?thesis
      proof (cases "locked (g c)")
        case True
        have "on_walk g c c" using ns by (rule on_walk.start)
        then have "\<not> (\<forall>a. on_walk g c a \<longrightarrow> \<not> locked (g a))" using True by blast
        moreover have "\<not> r" using 1(2) chk ns True by simp
        ultimately show ?thesis by blast
      next
        case False
        then have rec: "lock_walk' g (parent (g c)) = Some r" using 1(2) chk ns by simp
        note ih = 1(1) [OF rec]
        show ?thesis
        proof (cases "parent (g c)")
          case None
          then have "r" using ih by simp
          then show ?thesis using None False by (simp add: on_walk_unfold [OF ns])
        next
          case (Some p)
          then have r: "r = (\<forall>a. on_walk g p a \<longrightarrow> \<not> locked (g a))" using ih by simp
          show ?thesis
          proof (cases "p = scene")
            case True
            then show ?thesis using r Some False by (simp add: on_walk_unfold [OF ns] on_walk_scene)
          next
            case False
            then show ?thesis using r Some \<open>\<not> locked (g c)\<close>
              by (auto simp: on_walk_unfold [OF ns])
          qed
        qed
      qed
    qed
  qed
qed

lemma lock_walk_sound:
  assumes "lock_walk g (Some ob) = Some r"
  shows "r = (\<forall>a. on_walk g ob a \<longrightarrow> \<not> locked (g a))"
  using lock_walk_sound_aux [OF assms] by simp

lemma lock_walk_returns:
  assumes "wf {(b, a). parent (g a) = Some b}"
  shows "\<exists>r. lock_walk g check = Some r"
proof (cases check)
  case None
  then show ?thesis by (auto simp: lock_walk.simps)
next
  case (Some c)
  have "\<exists>r. lock_walk g (Some c) = Some r"
    using assms
  proof (induction c rule: wf_induct_rule)
    case (less c)
    show ?case
    proof (cases "c = scene \<or> locked (g c)")
      case True
      then show ?thesis by (auto simp: lock_walk.simps)
    next
      case False
      show ?thesis
      proof (cases "parent (g c)")
        case None
        then show ?thesis using False by (auto simp: lock_walk.simps [of g "Some c"] lock_walk.simps [of g None])
      next
        case (Some p)
        then have "\<exists>r. lock_walk g (Some p) = Some r" using less by simp
        then show ?thesis using False Some by (simp add: lock_walk.simps [of g "Some c"])
      qed
    qed
  qed
  then show ?thesis using Some by simp
qed


lemma select_filter_lock_chain:
  assumes "select_filter g i = Some r"
  shows "r = (hit_object i \<noteq> controlGizmo \<and> hit_object i \<noteq> selectionBox \<and>
              \<not> isTransformControlsPlane (g (hit_object i)) \<and>
              (\<forall>a. on_walk g (hit_object i) a \<longrightarrow> \<not> locked (g a)))"
proof (cases "hit_object i = controlGizmo \<or> hit_object i = selectionBox \<or>
              isTransformControlsPlane (g (hit_object i))")
  case True
  then show ?thesis using assms by (auto simp: select_filter_def Let_def)
next
  case False
  then have "lock_walk g (Some (hit_object i)) = Some r"
    using assms by (simp add: select_filter_def Let_def)
  from lock_walk_sound [OF this] show ?thesis using False by simp
qed

lemma select_filter_returns:
  assumes "wf {(b, a). parent (g a) = Some b}"
  shows "\<exists>r. select_filter g i = Some r"
  using lock_walk_returns [OF assms, of "Some (hit_object i)"]
  by (auto simp: select_filter_def Let_def)

lemma hover_filter_direct_lock:
  "hover_filter g i \<longleftrightarrow>
     hit_object i \<noteq> ghostCursor \<and> hit_object i \<noteq> controlGizmo \<and>
     hit_object i \<noteq> selectionBox \<and> \<not> isTransformControlsPlane (g (hit_object i)) \<and>
     \<not> locked (g (hit_object i))"
  by (simp add: hover_filter_def)

lemma child_of_locked_group:
  "parent (objs demo_editor 12) = Some 11" "locked (objs demo_editor 11)"
  "\<not> locked (objs demo_editor 12)"
  "hover_filter (objs demo_editor) (hit_at p 12 None)"
  "select_filter (objs demo_editor) (hit_at p 12 None) = Some False"
  by (simp_all add: hover_filter_def select_filter_def lock_walk.simps hit_at_def demo_defs gops ids)

text \<open>
  Claim C4, at the ghost cursor. The ghost cursor was left on the cube by the Build tool
  and the Select tool is active: the filter of the Select branch accepts a hit on the
  ghost cursor, which the filter of the hover branch rejects, and a pointer-down whose
  nearest hit is the ghost cursor makes the ghost cursor the selection.
\<close>

theorem select_accepts_ghost_cursor:
  "map_option activeTool ghost_left_behind = Some Select \<and>
   map_option (position_of ghostCursor) ghost_left_behind = Some (2, 1, 3) \<and>
   map_option (select_verdict (hit_at (21 / 10, 3 / 2, 29 / 10) ghostCursor None)) ghost_left_behind
     = Some (Some True) \<and>
   map_option (hover_verdict (hit_at (21 / 10, 3 / 2, 29 / 10) ghostCursor None)) ghost_left_behind
     = Some False \<and>
   map_option selectedObject ghost_clicked = Some (Some ghostCursor)"
  by (simp add: ghost_clicked_def ghost_left_behind_def position_of_def select_verdict_def
      hover_verdict_def handler_defs demo_defs gops ids)

section \<open>Selection after the undo of an addition\<close>

lemma remove_selected_clears_selection:
  assumes "selectedObject e = Some v"
  shows "selectedObject (cmd_execute (RemoveVoxelCommand p v) e) = None \<and>
         \<not> selectionBox_visible (cmd_execute (RemoveVoxelCommand p v) e) \<and>
         gizmo_object (cmd_execute (RemoveVoxelCommand p v) e) = None"
  using assms by (simp add: Let_def selectObject_def)

lemma undo_add_keeps_selection:
  "selectedObject (cmd_undo (AddVoxelCommand p v) e) = selectedObject e"
  "selectionBox_visible (cmd_undo (AddVoxelCommand p v) e) = selectionBox_visible e"
  "gizmo_object (cmd_undo (AddVoxelCommand p v) e) = gizmo_object e"
  by simp_all

text \<open>
  Claim C9, at the undo of an addition. The cube is cloned, the clone is selected through
  its tree row, and the cloning is undone with Ctrl+Z: \<^verbatim>\<open>AddVoxelCommand.undo\<close> takes the clone
  out of the graph and leaves the selection on it, with the selection box shown.
\<close>

theorem undo_of_add_leaves_selection:
  "history clone_made = [AddVoxelCommand scene 30] \<and>
   selectedObject clone_selected = Some 30 \<and>
   parent_of 30 clone_selected = Some scene \<and>
   children_of scene clone_selected = [10, 11, 13, 1, 2, 3, 30] \<and>
   map_option selectedObject clone_undone = Some (Some 30) \<and>
   map_option selectionBox_visible clone_undone = Some True \<and>
   map_option (parent_of 30) clone_undone = Some None \<and>
   map_option (children_of scene) clone_undone = Some [10, 11, 13, 1, 2, 3]"
  by (simp add: clone_undone_def clone_selected_def clone_made_def parent_of_def children_of_def
      tree_row_mousedown_def showCtxMenu_def ctx_click_def ctx_action_run_def leaf_clone_def
      parent_or_scene_def addScalar_def handler_defs demo_defs gops ids slice0_def)

section \<open>The Pipette and the brush size\<close>






lemmas double_defs = double_mul_def to_double_def round_half_even_def scale2_def binade_def
  binade_up.simps binade_down.simps Let_def


text \<open>
  The double nearest to 0.7 is \<open>6305039478318694 / 2 ^ 53\<close>. Its exact product with 5 lies
  below 3.5 and would round to 3; the product of the program is the double 3.5, which
  \<^verbatim>\<open>Math.round\<close> takes to 4.
\<close>

lemma cube_side_rounds_product:
  "js_round (6305039478318694 / 2 ^ 53 * 5) = 3 \<and>
   cube_side (ob\<lparr>scale := (6305039478318694 / 2 ^ 53, sy, sz), geometry_width := Some 5\<rparr>)
     = Some (7 / 2) \<and>
   js_round (7 / 2) = 4"
  by (simp add: cube_side_def js_round_def double_defs)





end
